theory Spec2Isabelle
  imports Complex_Main "HOL-Library.AList" "HOL-Library.Sublist" "HOL-Library.Log_Nat"
begin

section \<open>JavaScript values held by the provider pool manager\<close>

text \<open>
  The manager of \<^verbatim>\<open>src/src/provider-pool-manager.js\<close> keeps each provider entry as a
  JavaScript object. A property of such an object is missing (\<^verbatim>\<open>undefined\<close>),
  \<^verbatim>\<open>null\<close>, or a value; the code tells the three apart (\<^verbatim>\<open>!== undefined\<close>,
  \<^verbatim>\<open>|| null\<close>), so the model does too. The managed properties carry the types of
  the pool document: booleans, counters, ISO-8601 time texts, strings. A time text is
  represented by the instant it denotes (milliseconds since the epoch), so that
  \<^verbatim>\<open>new Date(text).getTime()\<close> and \<^verbatim>\<open>date.toISOString()\<close> are both the identity; the
  values come from \<^verbatim>\<open>JSON.parse\<close>, hence no property holds a \<^verbatim>\<open>Date\<close> object.
  Counters are integers or \<^verbatim>\<open>NaN\<close> (the result of \<^verbatim>\<open>undefined++\<close>). Logging has no
  effect on the state and is left out, and so are the log level, the length of the
  debounce interval and the proxy settings of the global configuration, which only
  reach the log, the timer and the adapter. Identifiers of the source that start with
  an underscore lose it.
\<close>

datatype 'a field = Absent | Null | Val 'a

datatype jsnum = NaN | Num int

datatype json =
    JNull
  | JBool bool
  | JNum int
  | JStr string
  | JArr "json list"
  | JObj "(string \<times> json) list"

type_synonym timestamp = int

text \<open>Truthiness of a property, by the type of its value.\<close>

fun truthy_bool :: "bool field \<Rightarrow> bool" where
  "truthy_bool (Val b) = b"
| "truthy_bool Null = False"
| "truthy_bool Absent = False"

fun truthy_str :: "string field \<Rightarrow> bool" where
  "truthy_str (Val s) = (s \<noteq> [])"
| "truthy_str Null = False"
| "truthy_str Absent = False"

text \<open>An object, an array and a time text are truthy whenever they are there.\<close>

fun truthy_obj :: "'a field \<Rightarrow> bool" where
  "truthy_obj (Val v) = True"
| "truthy_obj Null = False"
| "truthy_obj Absent = False"

text \<open>\<^verbatim>\<open>x || null\<close> for the two kinds of value.\<close>

definition str_or_null :: "string field \<Rightarrow> string field" where
  "str_or_null x = (if truthy_str x then x else Null)"

definition obj_or_null :: "'a field \<Rightarrow> 'a field" where
  "obj_or_null x = (if truthy_obj x then x else Null)"

text \<open>\<^verbatim>\<open>x !== undefined ? x : d\<close>.\<close>

definition defined_or :: "'a field \<Rightarrow> 'a field \<Rightarrow> 'a field" where
  "defined_or x d = (if x \<noteq> Absent then x else d)"

text \<open>Numeric conversion of a counter property, \<^verbatim>\<open>x++\<close> and \<^verbatim>\<open>x >= k\<close>.\<close>

fun toNumber :: "jsnum field \<Rightarrow> jsnum" where
  "toNumber Absent = NaN"
| "toNumber Null = Num 0"
| "toNumber (Val n) = n"

fun succ_num :: "jsnum \<Rightarrow> jsnum" where
  "succ_num NaN = NaN"
| "succ_num (Num n) = Num (n + 1)"

definition increment :: "jsnum field \<Rightarrow> jsnum field" where
  "increment x = Val (succ_num (toNumber x))"

fun num_ge :: "jsnum \<Rightarrow> int \<Rightarrow> bool" where
  "num_ge NaN k = False"
| "num_ge (Num n) k = (k \<le> n)"

section \<open>Provider entries and the manager's state\<close>

record usage_info =
  used :: int
  limit :: int
  remaining :: int
  usagePercent :: int
  nextReset :: "string option"
  daysUntilReset :: "int option"
  subscription :: "string option"
  email :: "string option"

text \<open>
  A provider configuration: the properties the manager reads or writes, and every other
  key of the entry (credentials, comments) in \<open>extras\<close>, in the order of the object.
\<close>

record provider_config =
  uuid :: "string field"
  checkModelName :: "string field"
  checkHealth :: "bool field"
  notSupportedModels :: "string list field"
  isHealthy :: "bool field"
  isDisabled :: "bool field"
  lastUsed :: "timestamp field"
  usageCount :: "jsnum field"
  errorCount :: "jsnum field"
  lastErrorTime :: "timestamp field"
  lastHealthCheckTime :: "timestamp field"
  lastHealthCheckModel :: "string field"
  lastErrorMessage :: "string field"
  usageInfo :: "usage_info field"
  extras :: "(string \<times> json) list"

text \<open>
  An element of \<^verbatim>\<open>providerStatus[providerType]\<close>: \<^verbatim>\<open>{config, uuid}\<close>. The second
  component is the copy of \<^verbatim>\<open>config.uuid\<close> made at initialization (named \<open>status_uuid\<close>
  here, \<open>uuid\<close> being the property of the configuration).
\<close>

record provider =
  config :: provider_config
  status_uuid :: "string field"

type_synonym pool_document = "(string \<times> provider_config list) list"

record manager =
  providerStatus :: "(string \<times> provider list) list"
  roundRobinIndex :: "(string \<times> nat) list"
  maxErrorCount :: int
  healthCheckInterval :: int
  saveTimer :: bool
  pendingSaves :: "string list"

record options =
  opt_maxErrorCount :: "int option"
  opt_healthCheckInterval :: "int option"

subsection \<open>\<^verbatim>\<open>initializeProviderStatus\<close> and the constructor\<close>

definition init_config :: "provider_config \<Rightarrow> provider_config" where
  "init_config providerConfig = providerConfig
     \<lparr> isHealthy := defined_or (isHealthy providerConfig) (Val True),
       isDisabled := defined_or (isDisabled providerConfig) (Val False),
       lastUsed := defined_or (lastUsed providerConfig) Null,
       usageCount := defined_or (usageCount providerConfig) (Val (Num 0)),
       errorCount := defined_or (errorCount providerConfig) (Val (Num 0)),
       lastErrorTime := obj_or_null (lastErrorTime providerConfig),
       lastHealthCheckTime := obj_or_null (lastHealthCheckTime providerConfig),
       lastHealthCheckModel := str_or_null (lastHealthCheckModel providerConfig),
       lastErrorMessage := str_or_null (lastErrorMessage providerConfig),
       usageInfo := obj_or_null (usageInfo providerConfig) \<rparr>"

definition init_provider :: "provider_config \<Rightarrow> provider" where
  "init_provider providerConfig =
     \<lparr> config = init_config providerConfig, status_uuid = uuid providerConfig \<rparr>"

definition init_family :: "string \<times> provider_config list \<Rightarrow> manager \<Rightarrow> manager" where
  "init_family kv m =
     m \<lparr> providerStatus := AList.update (fst kv) (map init_provider (snd kv)) (providerStatus m),
         roundRobinIndex := AList.update (fst kv) 0 (roundRobinIndex m) \<rparr>"

definition initializeProviderStatus :: "pool_document \<Rightarrow> manager \<Rightarrow> manager" where
  "initializeProviderStatus providerPools m = fold init_family providerPools m"

definition new_manager :: "pool_document \<Rightarrow> options \<Rightarrow> manager" where
  "new_manager providerPools opts =
     initializeProviderStatus providerPools
       \<lparr> providerStatus = [],
         roundRobinIndex = [],
         maxErrorCount = (case opt_maxErrorCount opts of None \<Rightarrow> 3 | Some n \<Rightarrow> n),
         healthCheckInterval =
           (case opt_healthCheckInterval opts of None \<Rightarrow> 10 * 60 * 1000 | Some n \<Rightarrow> n),
         saveTimer = False,
         pendingSaves = [] \<rparr>"

subsection \<open>Looking an entry up, changing it, scheduling a save\<close>

fun find_index_of :: "('a \<Rightarrow> bool) \<Rightarrow> 'a list \<Rightarrow> nat option" where
  "find_index_of P [] = None"
| "find_index_of P (x # xs) =
     (if P x then Some 0 else map_option Suc (find_index_of P xs))"

text \<open>
  \<^verbatim>\<open>_findProvider\<close>: the position, in the family's list, of the first entry whose
  \<^verbatim>\<open>uuid\<close> is the one asked for; \<open>None\<close> for the source's \<^verbatim>\<open>null\<close>.
\<close>

definition findProvider :: "manager \<Rightarrow> string \<Rightarrow> string field \<Rightarrow> nat option" where
  "findProvider m providerType u =
     (if providerType = [] \<or> \<not> truthy_str u then None
      else case map_of (providerStatus m) providerType of
             None \<Rightarrow> None
           | Some pool \<Rightarrow> find_index_of (\<lambda>p. status_uuid p = u) pool)"

text \<open>The entries of a family (\<^verbatim>\<open>this.providerStatus[providerType] || []\<close>).\<close>

definition family :: "manager \<Rightarrow> string \<Rightarrow> provider list" where
  "family m providerType =
     (case map_of (providerStatus m) providerType of None \<Rightarrow> [] | Some pool \<Rightarrow> pool)"

text \<open>An assignment to properties of the configuration at position \<open>i\<close> of a family.\<close>

definition set_config ::
  "string \<Rightarrow> nat \<Rightarrow> (provider_config \<Rightarrow> provider_config) \<Rightarrow> manager \<Rightarrow> manager" where
  "set_config providerType i f m =
     m \<lparr> providerStatus :=
           AList.map_entry providerType
             (\<lambda>pool. pool[i := (pool ! i) \<lparr> config := f (config (pool ! i)) \<rparr>])
             (providerStatus m) \<rparr>"

definition debouncedSave :: "string \<Rightarrow> manager \<Rightarrow> manager" where
  "debouncedSave providerType m =
     m \<lparr> pendingSaves :=
           (if providerType \<in> set (pendingSaves m) then pendingSaves m
            else pendingSaves m @ [providerType]),
         saveTimer := True \<rparr>"

subsection \<open>\<^verbatim>\<open>markProviderUnhealthy\<close>, \<^verbatim>\<open>markProviderHealthy\<close> and the operator actions\<close>

text \<open>
  Each takes the clock reading \<open>now\<close> of the call; the source's successive
  \<^verbatim>\<open>new Date()\<close> within one call are taken as the same instant.
\<close>

definition unhealthy_update ::
  "int \<Rightarrow> string field \<Rightarrow> timestamp \<Rightarrow> provider_config \<Rightarrow> provider_config" where
  "unhealthy_update maxErr errorMessage now c =
     (let c1 = c \<lparr> errorCount := increment (errorCount c), lastErrorTime := Val now \<rparr>;
          c2 = (if truthy_str errorMessage then c1 \<lparr> lastErrorMessage := errorMessage \<rparr> else c1)
      in if num_ge (toNumber (errorCount c2)) maxErr then c2 \<lparr> isHealthy := Val False \<rparr> else c2)"

definition markProviderUnhealthy ::
  "manager \<Rightarrow> string \<Rightarrow> provider_config \<Rightarrow> string field \<Rightarrow> timestamp \<Rightarrow> manager" where
  "markProviderUnhealthy m providerType providerConfig errorMessage now =
     (if \<not> truthy_str (uuid providerConfig) then m
      else case findProvider m providerType (uuid providerConfig) of
             None \<Rightarrow> m
           | Some i \<Rightarrow>
               debouncedSave providerType
                 (set_config providerType i
                    (unhealthy_update (maxErrorCount m) errorMessage now) m))"

definition healthy_update ::
  "bool \<Rightarrow> string field \<Rightarrow> timestamp \<Rightarrow> provider_config \<Rightarrow> provider_config" where
  "healthy_update resetUsageCount healthCheckModel now c =
     (let c1 = c \<lparr> isHealthy := Val True, errorCount := Val (Num 0), lastErrorTime := Null,
                   lastErrorMessage := Null, lastHealthCheckTime := Val now \<rparr>;
          c2 = (if truthy_str healthCheckModel
                then c1 \<lparr> lastHealthCheckModel := healthCheckModel \<rparr> else c1)
      in if resetUsageCount then c2 \<lparr> usageCount := Val (Num 0) \<rparr>
         else c2 \<lparr> usageCount := increment (usageCount c2), lastUsed := Val now \<rparr>)"

definition markProviderHealthy ::
  "manager \<Rightarrow> string \<Rightarrow> provider_config \<Rightarrow> bool \<Rightarrow> string field \<Rightarrow> timestamp \<Rightarrow> manager" where
  "markProviderHealthy m providerType providerConfig resetUsageCount healthCheckModel now =
     (if \<not> truthy_str (uuid providerConfig) then m
      else case findProvider m providerType (uuid providerConfig) of
             None \<Rightarrow> m
           | Some i \<Rightarrow>
               debouncedSave providerType
                 (set_config providerType i
                    (healthy_update resetUsageCount healthCheckModel now) m))"

definition resetProviderCounters :: "manager \<Rightarrow> string \<Rightarrow> provider_config \<Rightarrow> manager" where
  "resetProviderCounters m providerType providerConfig =
     (if \<not> truthy_str (uuid providerConfig) then m
      else case findProvider m providerType (uuid providerConfig) of
             None \<Rightarrow> m
           | Some i \<Rightarrow>
               debouncedSave providerType
                 (set_config providerType i
                    (\<lambda>c. c \<lparr> errorCount := Val (Num 0), usageCount := Val (Num 0) \<rparr>) m))"

definition disableProvider :: "manager \<Rightarrow> string \<Rightarrow> provider_config \<Rightarrow> manager" where
  "disableProvider m providerType providerConfig =
     (if \<not> truthy_str (uuid providerConfig) then m
      else case findProvider m providerType (uuid providerConfig) of
             None \<Rightarrow> m
           | Some i \<Rightarrow>
               debouncedSave providerType
                 (set_config providerType i (\<lambda>c. c \<lparr> isDisabled := Val True \<rparr>) m))"

definition enableProvider :: "manager \<Rightarrow> string \<Rightarrow> provider_config \<Rightarrow> manager" where
  "enableProvider m providerType providerConfig =
     (if \<not> truthy_str (uuid providerConfig) then m
      else case findProvider m providerType (uuid providerConfig) of
             None \<Rightarrow> m
           | Some i \<Rightarrow>
               debouncedSave providerType
                 (set_config providerType i (\<lambda>c. c \<lparr> isDisabled := Val False \<rparr>) m))"

subsection \<open>\<^verbatim>\<open>selectProvider\<close>\<close>

text \<open>
  The filtered arrays of the source hold references to the entries of the family's list;
  here they hold the positions of those entries. The result is the position of the
  selected entry with its configuration, the positions for which an asynchronous
  \<^verbatim>\<open>_tryRecoverProvider\<close> was dispatched, and the state after the call.
\<close>

record selection =
  selected :: "(nat \<times> provider_config) option"
  recoveries :: "nat list"
  manager_after :: manager

definition supportsModel :: "string \<Rightarrow> provider \<Rightarrow> bool" where
  "supportsModel requestedModel p =
     (case notSupportedModels (config p) of
        Val models \<Rightarrow> requestedModel \<notin> set models
      | Null \<Rightarrow> True
      | Absent \<Rightarrow> True)"

fun since :: "timestamp \<Rightarrow> timestamp field \<Rightarrow> int option" where
  "since now (Val t) = Some (now - t)"
| "since now Null = None"
| "since now Absent = None"

definition recovery_due :: "int \<Rightarrow> timestamp \<Rightarrow> provider_config \<Rightarrow> bool" where
  "recovery_due interval now c =
     (\<not> truthy_bool (isHealthy c) \<and>
      (case since now (lastErrorTime c) of None \<Rightarrow> False | Some timeSinceError \<Rightarrow> interval \<le> timeSinceError))"

fun recoverySweep ::
  "int \<Rightarrow> timestamp \<Rightarrow> nat list \<Rightarrow> provider list \<Rightarrow> provider list \<times> nat list" where
  "recoverySweep interval now [] pool = (pool, [])"
| "recoverySweep interval now (i # rest) pool =
     (if recovery_due interval now (config (pool ! i))
      then (case recoverySweep interval now rest
                   (pool[i := (pool ! i) \<lparr> config := (config (pool ! i)) \<lparr> lastErrorTime := Val now \<rparr> \<rparr>])
            of (pool', triggered) \<Rightarrow> (pool', i # triggered))
      else recoverySweep interval now rest pool)"

definition enabledProviders :: "provider list \<Rightarrow> string \<Rightarrow> nat list" where
  "enabledProviders availableProviders requestedModel =
     (let enabled = filter (\<lambda>i. \<not> truthy_bool (isDisabled (config (availableProviders ! i))))
                      [0..<length availableProviders]
      in if requestedModel \<noteq> []
         then filter (\<lambda>i. supportsModel requestedModel (availableProviders ! i)) enabled
         else enabled)"

definition candidateProviders :: "provider list \<Rightarrow> nat list \<Rightarrow> nat list" where
  "candidateProviders pool enabled =
     (let healthy = filter (\<lambda>i. truthy_bool (isHealthy (config (pool ! i)))) enabled
      in if healthy = [] then enabled else healthy)"

definition indexKey :: "string \<Rightarrow> string \<Rightarrow> string" where
  "indexKey providerType requestedModel =
     (if requestedModel \<noteq> [] then providerType @ '':'' @ requestedModel else providerType)"

definition currentIndex :: "manager \<Rightarrow> string \<Rightarrow> nat" where
  "currentIndex m key = (case map_of (roundRobinIndex m) key of None \<Rightarrow> 0 | Some i \<Rightarrow> i)"

definition selectProvider ::
  "manager \<Rightarrow> string \<Rightarrow> string option \<Rightarrow> bool \<Rightarrow> timestamp \<Rightarrow> selection" where
  "selectProvider m providerType requestedModel skipUsageCount now =
     (if providerType = [] then \<lparr> selected = None, recoveries = [], manager_after = m \<rparr>
      else
        let model = (case requestedModel of None \<Rightarrow> [] | Some r \<Rightarrow> r);
            enabled = enabledProviders (family m providerType) model
        in if enabled = [] then \<lparr> selected = None, recoveries = [], manager_after = m \<rparr>
           else
             let sweep = recoverySweep (healthCheckInterval m) now enabled (family m providerType);
                 candidates = candidateProviders (fst sweep) enabled;
                 key = indexKey providerType model;
                 providerIndex = currentIndex m key mod length candidates;
                 sel = candidates ! providerIndex;
                 m1 = m \<lparr> providerStatus :=
                            AList.map_entry providerType (\<lambda>_. fst sweep) (providerStatus m),
                          roundRobinIndex :=
                            AList.update key ((currentIndex m key + 1) mod length candidates)
                              (roundRobinIndex m) \<rparr>;
                 m2 = (if skipUsageCount then m1
                       else debouncedSave providerType
                              (set_config providerType sel
                                 (\<lambda>c. c \<lparr> lastUsed := Val now,
                                          usageCount := increment (usageCount c) \<rparr>) m1))
             in \<lparr> selected = Some (sel, config (family m2 providerType ! sel)),
                  recoveries = snd sweep,
                  manager_after = m2 \<rparr>)"

text \<open>Successive selections with no requested model and default options.\<close>

fun select_many :: "manager \<Rightarrow> string \<Rightarrow> timestamp list \<Rightarrow> nat option list \<times> manager" where
  "select_many m providerType [] = ([], m)"
| "select_many m providerType (now # later) =
     (let r = selectProvider m providerType None False now;
          rest = select_many (manager_after r) providerType later
      in (map_option fst (selected r) # fst rest, snd rest))"

subsection \<open>\<^verbatim>\<open>_flushPendingSaves\<close>\<close>

text \<open>
  What reading the pool file gives: \<^verbatim>\<open>readFile\<close> rejects with an error whose
  \<^verbatim>\<open>code\<close> is given, or \<^verbatim>\<open>JSON.parse\<close> throws (a \<^verbatim>\<open>SyntaxError\<close> has no
  \<^verbatim>\<open>code\<close>), or the document is read. The outcome of the flush is the document
  handed to \<^verbatim>\<open>writeFile\<close>, if the flush gets that far, and the state; whether
  the write then succeeds changes neither.
\<close>

datatype read_outcome =
    ReadFails "string field"
  | ParseFails
  | Parsed pool_document

record flush_outcome =
  written :: "pool_document option"
  manager_flushed :: manager

fun nan_to_null :: "jsnum field \<Rightarrow> jsnum field" where
  "nan_to_null (Val NaN) = Null"
| "nan_to_null x = x"

text \<open>
  The copy \<^verbatim>\<open>{ ...p.config }\<close> as \<^verbatim>\<open>JSON.stringify\<close> writes it: every property
  as it is, a missing one left out, \<^verbatim>\<open>NaN\<close> written as \<^verbatim>\<open>null\<close>.
\<close>

definition stringify_config :: "provider_config \<Rightarrow> provider_config" where
  "stringify_config c =
     c \<lparr> usageCount := nan_to_null (usageCount c), errorCount := nan_to_null (errorCount c) \<rparr>"

definition save_family :: "manager \<Rightarrow> string \<Rightarrow> pool_document \<Rightarrow> pool_document" where
  "save_family m providerType currentPools =
     (case map_of (providerStatus m) providerType of
        Some pool \<Rightarrow>
          AList.update providerType (map (\<lambda>p. stringify_config (config p)) pool) currentPools
      | None \<Rightarrow> currentPools)"

definition flushPendingSaves :: "manager \<Rightarrow> read_outcome \<Rightarrow> flush_outcome" where
  "flushPendingSaves m disk =
     (let typesToSave = pendingSaves m
      in if typesToSave = [] then \<lparr> written = None, manager_flushed = m \<rparr>
         else
           let m' = m \<lparr> pendingSaves := [], saveTimer := False \<rparr>;
               currentPools =
                 (case disk of
                    Parsed d \<Rightarrow> Some d
                  | ParseFails \<Rightarrow> None
                  | ReadFails code \<Rightarrow> if code = Val ''ENOENT'' then Some [] else None)
           in case currentPools of
                None \<Rightarrow> \<lparr> written = None, manager_flushed = m' \<rparr>
              | Some pools \<Rightarrow>
                  \<lparr> written = Some (fold (save_family m') typesToSave pools),
                    manager_flushed = m' \<rparr>)"

text \<open>The debounce timer firing: the flush runs if a timer is armed.\<close>

definition timer_fires :: "manager \<Rightarrow> read_outcome \<Rightarrow> flush_outcome" where
  "timer_fires m disk =
     (if saveTimer m then flushPendingSaves m disk
      else \<lparr> written = None, manager_flushed = m \<rparr>)"

section \<open>Health probes\<close>

subsection \<open>\<^verbatim>\<open>_analyzeUsageHealth\<close>\<close>

text \<open>
  The normalized usage snapshot is what \<^verbatim>\<open>formatKiroUsage\<close> of
  \<^verbatim>\<open>usage-service.js\<close> returns. Quantities are integers (\<open>None\<close>: missing or
  \<^verbatim>\<open>null\<close>). The numbers of the source are IEEE 754 doubles: sums, differences and
  comparisons of integers are exact as long as the magnitudes stay within \<open>2 ^ 53\<close>, and
  the decimal text of such an integer is its digits, so the totals are integers here and
  the properties are stated for snapshots within that range (\<open>safe_quantities\<close> below).
  The quotient and the product of the percentage are rounded as doubles are. A breakdown
  item is a quota bucket with an optional free trial and optional bonuses, themselves
  buckets with a \<^verbatim>\<open>status\<close>.
\<close>

record quota =
  currentUsage :: "int option"
  usageLimit :: "int option"
  status :: "string option"

record breakdown = quota +
  freeTrial :: "quota option"
  bonuses :: "quota list option"

record subscription_info =
  title :: "string option"
  subscription_type :: "string option"

record user_info =
  user_email :: "string option"

record formatted_usage =
  usageBreakdown :: "breakdown list option"
  nextDateReset :: "string option"
  days_until_reset :: "int option"
  subscription_of :: "subscription_info option"
  user :: "user_info option"

record totals =
  totalUsed :: int
  totalLimit :: int
  hasActiveQuota :: bool

text \<open>\<^verbatim>\<open>x || 0\<close>.\<close>

definition or_zero :: "int option \<Rightarrow> int" where
  "or_zero x = (case x of None \<Rightarrow> 0 | Some n \<Rightarrow> n)"

definition add_quota :: "'a quota_scheme \<Rightarrow> totals \<Rightarrow> totals" where
  "add_quota q t =
     (let u = or_zero (currentUsage q); l = or_zero (usageLimit q)
      in \<lparr> totalUsed = totalUsed t + u,
           totalLimit = totalLimit t + l,
           hasActiveQuota = (hasActiveQuota t \<or> (0 < l \<and> u < l)) \<rparr>)"

definition add_if_active :: "quota \<Rightarrow> totals \<Rightarrow> totals" where
  "add_if_active q t = (if status q = Some ''ACTIVE'' then add_quota q t else t)"

definition add_breakdown :: "breakdown \<Rightarrow> totals \<Rightarrow> totals" where
  "add_breakdown b t =
     (let t1 = add_quota b t;
          t2 = (case freeTrial b of None \<Rightarrow> t1 | Some trial \<Rightarrow> add_if_active trial t1)
      in case bonuses b of None \<Rightarrow> t2 | Some bs \<Rightarrow> fold add_if_active bs t2)"

definition usage_totals :: "formatted_usage \<Rightarrow> totals" where
  "usage_totals formattedUsage =
     fold add_breakdown (case usageBreakdown formattedUsage of None \<Rightarrow> [] | Some bs \<Rightarrow> bs)
       \<lparr> totalUsed = 0, totalLimit = 0, hasActiveQuota = False \<rparr>"

text \<open>Decimal text of a number, as a template literal prints an integer.\<close>

fun show_nat :: "nat \<Rightarrow> string" where
  "show_nat n =
     (if n < 10 then [''0123456789'' ! n]
      else show_nat (n div 10) @ [''0123456789'' ! (n mod 10)])"

definition show_int :: "int \<Rightarrow> string" where
  "show_int i = (if i < 0 then ''-'' @ show_nat (nat (- i)) else show_nat (nat i))"

text \<open>
  The messages of the source are Chinese texts; a string is the list of the bytes of
  its UTF-8 encoding. \<open>quota_used_up\<close> is the text before \<^verbatim>\<open> (used/limit)\<close> in the
  message for an exhausted quota, \<open>no_active_quota\<close> the message for a snapshot without
  active quota, \<open>used_remaining\<close> the text between the percentage and the remainder in
  the summary.
\<close>

definition quota_used_up :: string where
  "quota_used_up = [CHR 0xE9, CHR 0x85, CHR 0x8D, CHR 0xE9, CHR 0xA2, CHR 0x9D, CHR 0xE5, CHR 0xB7, CHR 0xB2, CHR 0xE7, CHR 0x94, CHR 0xA8, CHR 0xE5, CHR 0xAE, CHR 0x8C]"

definition no_active_quota :: string where
  "no_active_quota = [CHR 0xE6, CHR 0xB2, CHR 0xA1, CHR 0xE6, CHR 0x9C, CHR 0x89, CHR 0xE5, CHR 0x8F, CHR 0xAF, CHR 0xE7, CHR 0x94, CHR 0xA8, CHR 0xE7, CHR 0x9A, CHR 0x84, CHR 0xE6, CHR 0xB4, CHR 0xBB, CHR 0xE8, CHR 0xB7, CHR 0x83, CHR 0xE9, CHR 0x85, CHR 0x8D, CHR 0xE9, CHR 0xA2, CHR 0x9D]"

definition used_remaining :: string where
  "used_remaining = [CHR 0x25, CHR 0x20, CHR 0xE5, CHR 0xB7, CHR 0xB2, CHR 0xE7, CHR 0x94, CHR 0xA8, CHR 0x2C, CHR 0x20, CHR 0xE5, CHR 0x89, CHR 0xA9, CHR 0xE4, CHR 0xBD, CHR 0x99, CHR 0x20]"

text \<open>The common part of the results of a probe and of the analysis.\<close>

record verdict =
  success :: bool
  errorMessage :: "string field"
  verdict_usageInfo :: "usage_info field"

record health_analysis = verdict +
  summary :: string

record health_result = verdict +
  modelName :: "string field"

text \<open>
  Double arithmetic. A double is a rational \<open>n * 2 ^ e\<close> with a significand \<open>n\<close> of at
  most 53 bits. \<open>binary_exponent x\<close> is, for a positive \<open>x\<close>, the \<open>e\<close> with
  \<open>2 ^ e \<le> x < 2 ^ (e + 1)\<close>; \<open>nearest_double x\<close> is the double nearest to \<open>x\<close>, a tie
  going to the even significand, as the default rounding of IEEE 754 has it. The
  exponent is not bounded: overflow to \<^verbatim>\<open>Infinity\<close> and subnormal numbers are left out,
  which quotients and products of integers within \<open>2 ^ 53\<close> do not reach. \<^verbatim>\<open>a / b\<close> and
  \<^verbatim>\<open>a * b\<close> of the source are the exact results rounded to the nearest double, and
  \<^verbatim>\<open>Math.round\<close> rounds to the nearest integer, a half going up.
\<close>

definition binary_exponent :: "rat \<Rightarrow> int" where
  "binary_exponent x =
     (case quotient_of x of
        (p, q) \<Rightarrow>
          (let d = bitlen p - bitlen q
           in if 2 powi d \<le> x then d else d - 1))"

definition round_half_even :: "rat \<Rightarrow> int" where
  "round_half_even x =
     (let f = \<lfloor>x\<rfloor>; r = x - of_int f
      in if r < 1 / 2 then f
         else if 1 / 2 < r then f + 1
         else if even f then f else f + 1)"

definition nearest_double :: "rat \<Rightarrow> rat" where
  "nearest_double x =
     (if x = 0 then 0
      else
        let a = \<bar>x\<bar>;
            quantum = 2 powi (binary_exponent a - 52);
            nearest = of_int (round_half_even (a / quantum)) * quantum
        in if x < 0 then - nearest else nearest)"

definition js_divide :: "rat \<Rightarrow> rat \<Rightarrow> rat" where
  "js_divide a b = nearest_double (a / b)"

definition js_times :: "rat \<Rightarrow> rat \<Rightarrow> rat" where
  "js_times a b = nearest_double (a * b)"

definition Math_round :: "rat \<Rightarrow> int" where
  "Math_round x = \<lfloor>x + 1 / 2\<rfloor>"

text \<open>\<^verbatim>\<open>totalLimit > 0 ? Math.round((totalUsed / totalLimit) * 100) : 0\<close>.\<close>

definition usage_percent :: "int \<Rightarrow> int \<Rightarrow> int" where
  "usage_percent tUsed tLimit =
     (if 0 < tLimit then Math_round (js_times (js_divide (of_int tUsed) (of_int tLimit)) 100)
      else 0)"

definition analyzeUsageHealth ::
  "string \<Rightarrow> formatted_usage \<Rightarrow> provider_config \<Rightarrow> health_analysis" where
  "analyzeUsageHealth providerType formattedUsage providerConfig =
     (let t = usage_totals formattedUsage;
          remain = totalLimit t - totalUsed t;
          percent = usage_percent (totalUsed t) (totalLimit t);
          info = \<lparr> used = totalUsed t,
                   limit = totalLimit t,
                   remaining = remain,
                   usagePercent = percent,
                   nextReset = nextDateReset formattedUsage,
                   daysUntilReset = days_until_reset formattedUsage,
                   subscription =
                     (case subscription_of formattedUsage of
                        None \<Rightarrow> None
                      | Some sub \<Rightarrow>
                          (case title sub of
                             None \<Rightarrow> subscription_type sub
                           | Some ttl \<Rightarrow> if ttl \<noteq> [] then Some ttl else subscription_type sub)),
                   email = (case user formattedUsage of None \<Rightarrow> None | Some u \<Rightarrow> user_email u) \<rparr>;
          healthy = (hasActiveQuota t \<and> 0 < remain);
          exhausted = quota_used_up @ '' ('' @ show_int (totalUsed t) @ ''/''
                        @ show_int (totalLimit t) @ '')''
      in if \<not> healthy then
           (if remain \<le> 0 then
              \<lparr> success = healthy, errorMessage = Val exhausted, verdict_usageInfo = Val info,
                summary = exhausted \<rparr>
            else if \<not> hasActiveQuota t then
              \<lparr> success = healthy, errorMessage = Val no_active_quota,
                verdict_usageInfo = Val info, summary = no_active_quota \<rparr>
            else
              \<lparr> success = healthy, errorMessage = Null, verdict_usageInfo = Val info,
                summary = [] \<rparr>)
         else
           \<lparr> success = healthy, errorMessage = Null, verdict_usageInfo = Val info,
             summary = show_int (totalUsed t) @ ''/'' @ show_int (totalLimit t) @ '' (''
                        @ show_int percent @ used_remaining @ show_int remain @ '')'' \<rparr>)"

subsection \<open>Service adapters\<close>

text \<open>
  The adapter of an entry comes from \<^verbatim>\<open>getServiceAdapter\<close> of \<^verbatim>\<open>adapter.js\<close>. The
  manager only calls it; what each call does is the adapter's business, so an adapter
  is given by the outcomes of its calls. A thrown value is represented by its
  \<^verbatim>\<open>message\<close> property. \<open>generateContent\<close> answers a model name and a payload with
  \<open>None\<close> (the call returns) or the error it throws; the optional methods are \<open>None\<close>
  where the adapter has no such function. The calls a probe makes are recorded in order.
\<close>

type_synonym js_error = "string field"

record adapter =
  generateContent :: "string \<Rightarrow> json \<Rightarrow> js_error option"
  getUsageLimits :: "(js_error + json) option"
  forceRefreshToken :: "js_error option option"
  refreshToken :: "js_error option option"

datatype adapter_call =
    CallForceRefreshToken
  | CallRefreshToken
  | CallGetUsageLimits
  | CallGenerateContent string json

record probe_outcome =
  result :: "health_result option"
  calls :: "adapter_call list"
  manager_probed :: manager

subsection \<open>Constants\<close>

definition DEFAULT_HEALTH_CHECK_MODELS :: "(string \<times> string) list" where
  "DEFAULT_HEALTH_CHECK_MODELS =
     [(''gemini-cli-oauth'', ''gemini-2.5-flash''),
      (''gemini-antigravity'', ''gemini-2.5-flash''),
      (''openai-custom'', ''gpt-3.5-turbo''),
      (''claude-custom'', ''claude-3-7-sonnet-20250219''),
      (''claude-kiro-oauth'', ''claude-haiku-4-5''),
      (''openai-qwen-oauth'', ''qwen3-coder-flash''),
      (''openaiResponses-custom'', ''gpt-4o-mini'')]"

text \<open>
  Modelled from the spec: the constant \<^verbatim>\<open>MODEL_PROVIDER.KIRO_API\<close> of \<^verbatim>\<open>common.js\<close>,
  which is not among the sources. The specification names \<^verbatim>\<open>claude-kiro-oauth\<close> as the
  only family of the usage-based set; it is the Kiro key of the table above, whose keys
  are the values of \<^verbatim>\<open>MODEL_PROVIDER\<close>.
\<close>

definition KIRO_API :: string where
  "KIRO_API = ''claude-kiro-oauth''"

text \<open>
  Modelled from the spec: the constant \<^verbatim>\<open>MODEL_PROVIDER.OPENAI_CUSTOM_RESPONSES\<close> of
  \<^verbatim>\<open>common.js\<close>, which is not among the sources. The specification names
  \<^verbatim>\<open>openaiResponses-custom\<close> as the family of the responses payload.
\<close>

definition OPENAI_CUSTOM_RESPONSES :: string where
  "OPENAI_CUSTOM_RESPONSES = ''openaiResponses-custom''"

definition USAGE_BASED_HEALTH_CHECK_PROVIDERS :: "string list" where
  "USAGE_BASED_HEALTH_CHECK_PROVIDERS = [KIRO_API]"

subsection \<open>\<^verbatim>\<open>_buildHealthCheckRequests\<close>\<close>

definition baseMessage :: json where
  "baseMessage = JObj [(''role'', JStr ''user''), (''content'', JStr ''Hi'')]"

definition contents_part :: json where
  "contents_part =
     JArr [JObj [(''role'', JStr ''user''), (''parts'', JArr [JObj [(''text'', JStr ''Hi'')]])]]"

definition buildHealthCheckRequests :: "string \<Rightarrow> string \<Rightarrow> json list" where
  "buildHealthCheckRequests providerType model =
     (if prefix ''gemini'' providerType then [JObj [(''contents'', contents_part)]]
      else if prefix ''claude-kiro'' providerType then
        [JObj [(''messages'', JArr [baseMessage]), (''model'', JStr model), (''max_tokens'', JNum 1)],
         JObj [(''contents'', contents_part), (''max_tokens'', JNum 1)]]
      else if providerType = OPENAI_CUSTOM_RESPONSES then
        [JObj [(''input'', JArr [baseMessage]), (''model'', JStr model)]]
      else [JObj [(''messages'', JArr [baseMessage]), (''model'', JStr model)]])"

subsection \<open>\<^verbatim>\<open>_checkProviderHealthByUsage\<close> and \<^verbatim>\<open>_checkProviderHealth\<close>\<close>

text \<open>
  \<^verbatim>\<open>formatKiroUsage\<close> (of \<^verbatim>\<open>usage-service.js\<close>, not among the sources) is a parameter:
  it maps the raw usage document to a snapshot, or to nothing.
\<close>

definition refresh_calls :: "adapter \<Rightarrow> adapter_call list" where
  "refresh_calls a =
     (if forceRefreshToken a \<noteq> None then [CallForceRefreshToken]
      else if refreshToken a \<noteq> None then [CallRefreshToken]
      else [])"

definition checkProviderHealthByUsage ::
  "(json \<Rightarrow> formatted_usage option) \<Rightarrow> manager \<Rightarrow> string \<Rightarrow> adapter \<Rightarrow> provider_config
     \<Rightarrow> timestamp \<Rightarrow> probe_outcome" where
  "checkProviderHealthByUsage formatKiroUsage m providerType serviceAdapter providerConfig now =
     (case getUsageLimits serviceAdapter of
        None \<Rightarrow> \<lparr> result = None, calls = [], manager_probed = m \<rparr>
      | Some (Inl thrown) \<Rightarrow>
          \<lparr> result = None, calls = refresh_calls serviceAdapter @ [CallGetUsageLimits],
            manager_probed = m \<rparr>
      | Some (Inr rawUsageData) \<Rightarrow>
          (let made = refresh_calls serviceAdapter @ [CallGetUsageLimits]
           in if providerType \<noteq> KIRO_API then
                \<lparr> result = None, calls = made, manager_probed = m \<rparr>
              else case formatKiroUsage rawUsageData of
                None \<Rightarrow>
                  \<lparr> result = Some \<lparr> success = False,
                                    errorMessage = Val ''Failed to parse usage data'',
                                    verdict_usageInfo = Null, modelName = Null \<rparr>,
                    calls = made, manager_probed = m \<rparr>
              | Some formattedUsage \<Rightarrow>
                  (let healthAnalysis = analyzeUsageHealth providerType formattedUsage providerConfig;
                       m' = (case findProvider m providerType (uuid providerConfig) of
                               None \<Rightarrow> m
                             | Some i \<Rightarrow>
                                 set_config providerType i
                                   (\<lambda>c. c \<lparr> usageInfo := verdict_usageInfo healthAnalysis,
                                            lastHealthCheckTime := Val now \<rparr>) m)
                   in \<lparr> result = Some \<lparr> success = success healthAnalysis,
                                       errorMessage = (if success healthAnalysis then Null
                                                       else errorMessage healthAnalysis),
                                       verdict_usageInfo = verdict_usageInfo healthAnalysis,
                                       modelName = Null \<rparr>,
                        calls = made, manager_probed = m' \<rparr>)))"

text \<open>
  The retry loop over the request formats: the result, and the calls made. \<open>lastError\<close>
  is \<open>None\<close> for the source's \<^verbatim>\<open>null\<close>.
\<close>

fun tryRequests ::
  "adapter \<Rightarrow> string \<Rightarrow> json list \<Rightarrow> js_error option \<Rightarrow> health_result \<times> adapter_call list" where
  "tryRequests serviceAdapter model [] lastError =
     (\<lparr> success = False,
        errorMessage =
          (case lastError of
             Some (Val msg) \<Rightarrow>
               if msg \<noteq> [] then Val msg else Val ''All health check attempts failed''
           | _ \<Rightarrow> Val ''All health check attempts failed''),
        verdict_usageInfo = Absent,
        modelName = Val model \<rparr>, [])"
| "tryRequests serviceAdapter model (healthCheckRequest # rest) lastError =
     (case generateContent serviceAdapter model healthCheckRequest of
        None \<Rightarrow>
          (\<lparr> success = True, errorMessage = Null, verdict_usageInfo = Absent,
             modelName = Val model \<rparr>,
           [CallGenerateContent model healthCheckRequest])
      | Some thrown \<Rightarrow>
          (case tryRequests serviceAdapter model rest (Some thrown) of
             (r, made) \<Rightarrow> (r, CallGenerateContent model healthCheckRequest # made)))"

definition check_model_name :: "string \<Rightarrow> provider_config \<Rightarrow> string field" where
  "check_model_name providerType providerConfig =
     (if truthy_str (checkModelName providerConfig) then checkModelName providerConfig
      else case map_of DEFAULT_HEALTH_CHECK_MODELS providerType of
             None \<Rightarrow> Absent
           | Some model \<Rightarrow> Val model)"

text \<open>The traditional check (a request is sent), after the usage-based one gave nothing.\<close>

definition traditional_check ::
  "adapter \<Rightarrow> string \<Rightarrow> provider_config \<Rightarrow> health_result \<times> adapter_call list" where
  "traditional_check serviceAdapter providerType providerConfig =
     (case check_model_name providerType providerConfig of
        Val model \<Rightarrow>
          if model \<noteq> [] then
            tryRequests serviceAdapter model (buildHealthCheckRequests providerType model) None
          else
            (\<lparr> success = False, errorMessage = Val ''Unknown provider type for health check'',
               verdict_usageInfo = Absent, modelName = Null \<rparr>, [])
      | _ \<Rightarrow>
          (\<lparr> success = False, errorMessage = Val ''Unknown provider type for health check'',
             verdict_usageInfo = Absent, modelName = Null \<rparr>, []))"

text \<open>
  \<open>serviceAdapter\<close> is what \<^verbatim>\<open>getServiceAdapter(tempConfig)\<close> gives for this entry: an
  adapter, or the error it throws. The result is \<open>Inl\<close> when the check itself throws.
\<close>

definition checkProviderHealth ::
  "(json \<Rightarrow> formatted_usage option) \<Rightarrow> js_error + adapter \<Rightarrow> manager \<Rightarrow> string
     \<Rightarrow> provider_config \<Rightarrow> bool \<Rightarrow> timestamp \<Rightarrow> js_error + probe_outcome" where
  "checkProviderHealth formatKiroUsage serviceAdapter m providerType providerConfig forceCheck now =
     (if \<not> truthy_bool (checkHealth providerConfig) \<and> \<not> forceCheck then
        Inr \<lparr> result = None, calls = [], manager_probed = m \<rparr>
      else case serviceAdapter of
        Inl thrown \<Rightarrow> Inl thrown
      | Inr a \<Rightarrow>
          (let usageResult =
                 (if providerType \<in> set USAGE_BASED_HEALTH_CHECK_PROVIDERS then
                    checkProviderHealthByUsage formatKiroUsage m providerType a providerConfig now
                  else \<lparr> result = None, calls = [], manager_probed = m \<rparr>)
           in case result usageResult of
                Some r \<Rightarrow> Inr usageResult
              | None \<Rightarrow>
                  (case traditional_check a providerType providerConfig of
                     (r, made) \<Rightarrow>
                       Inr \<lparr> result = Some r, calls = calls usageResult @ made,
                             manager_probed = manager_probed usageResult \<rparr>)))"

subsection \<open>\<^verbatim>\<open>_tryRecoverProvider\<close> and \<^verbatim>\<open>performHealthChecks\<close>\<close>

definition record_check :: "string field \<Rightarrow> timestamp \<Rightarrow> provider_config \<Rightarrow> provider_config" where
  "record_check model now c =
     (let c1 = c \<lparr> lastHealthCheckTime := Val now \<rparr>
      in if truthy_str model then c1 \<lparr> lastHealthCheckModel := model \<rparr> else c1)"

definition tryRecoverProvider ::
  "(json \<Rightarrow> formatted_usage option) \<Rightarrow> js_error + adapter \<Rightarrow> manager \<Rightarrow> string
     \<Rightarrow> provider_config \<Rightarrow> timestamp \<Rightarrow> manager" where
  "tryRecoverProvider formatKiroUsage serviceAdapter m providerType providerConfig now =
     (case checkProviderHealth formatKiroUsage serviceAdapter m providerType providerConfig True now of
        Inl thrown \<Rightarrow> m
      | Inr out \<Rightarrow>
          (case result out of
             None \<Rightarrow> manager_probed out
           | Some healthResult \<Rightarrow>
               if success healthResult then
                 markProviderHealthy (manager_probed out) providerType providerConfig False
                   (modelName healthResult) now
               else
                 (case findProvider (manager_probed out) providerType (uuid providerConfig) of
                    None \<Rightarrow> manager_probed out
                  | Some i \<Rightarrow>
                      debouncedSave providerType
                        (set_config providerType i
                           (\<lambda>c. record_check (modelName healthResult) now
                                  (c \<lparr> lastErrorMessage := errorMessage healthResult \<rparr>))
                           (manager_probed out)))))"

text \<open>
  One turn of the inner loop of \<^verbatim>\<open>performHealthChecks\<close>, for the entry at position
  \<open>i\<close> of a family. \<open>getServiceAdapter\<close> gives the adapter of an entry.
\<close>

definition too_recent :: "int \<Rightarrow> timestamp \<Rightarrow> provider_config \<Rightarrow> bool" where
  "too_recent interval now c =
     (\<not> truthy_bool (isHealthy c) \<and>
      (case since now (lastErrorTime c) of None \<Rightarrow> False | Some elapsed \<Rightarrow> elapsed < interval))"

definition check_entry ::
  "(json \<Rightarrow> formatted_usage option) \<Rightarrow> (string \<Rightarrow> provider_config \<Rightarrow> js_error + adapter)
     \<Rightarrow> timestamp \<Rightarrow> string \<Rightarrow> nat \<Rightarrow> manager \<Rightarrow> manager" where
  "check_entry formatKiroUsage getServiceAdapter now providerType i m =
     (let providerConfig = config (family m providerType ! i)
      in if too_recent (healthCheckInterval m) now providerConfig then m
         else case checkProviderHealth formatKiroUsage
                     (getServiceAdapter providerType providerConfig) m providerType
                     providerConfig False now of
           Inl thrown \<Rightarrow> markProviderUnhealthy m providerType providerConfig thrown now
         | Inr out \<Rightarrow>
             (case result out of
                None \<Rightarrow> resetProviderCounters (manager_probed out) providerType providerConfig
              | Some healthResult \<Rightarrow>
                  if success healthResult then
                    markProviderHealthy (manager_probed out) providerType providerConfig True
                      (modelName healthResult) now
                  else
                    set_config providerType i (record_check (modelName healthResult) now)
                      (markProviderUnhealthy (manager_probed out) providerType providerConfig
                         (errorMessage healthResult) now)))"

definition performHealthChecks ::
  "(json \<Rightarrow> formatted_usage option) \<Rightarrow> (string \<Rightarrow> provider_config \<Rightarrow> js_error + adapter)
     \<Rightarrow> manager \<Rightarrow> timestamp \<Rightarrow> manager" where
  "performHealthChecks formatKiroUsage getServiceAdapter m now =
     fold (\<lambda>providerType m1.
             fold (check_entry formatKiroUsage getServiceAdapter now providerType)
               [0..<length (family m1 providerType)] m1)
       (map fst (providerStatus m)) m"

section \<open>Operations on the manager, and the notions the properties are stated with\<close>

text \<open>
  The operations that change the state after construction: a selection, the reports and
  the operator actions, the completion of a recovery probe dispatched by a selection,
  a periodic sweep, and the debounce timer firing.
\<close>

datatype operation =
    Select string "string option" bool timestamp
  | MarkUnhealthy string provider_config "string field" timestamp
  | MarkHealthy string provider_config bool "string field" timestamp
  | ResetCounters string provider_config
  | Disable string provider_config
  | Enable string provider_config
  | RecoveryProbe "json \<Rightarrow> formatted_usage option" "js_error + adapter" string provider_config
      timestamp
  | HealthChecks "json \<Rightarrow> formatted_usage option"
      "string \<Rightarrow> provider_config \<Rightarrow> js_error + adapter" timestamp
  | TimerFires read_outcome

fun apply_operation :: "manager \<Rightarrow> operation \<Rightarrow> manager" where
  "apply_operation m (Select providerType requestedModel skipUsageCount now) =
     manager_after (selectProvider m providerType requestedModel skipUsageCount now)"
| "apply_operation m (MarkUnhealthy providerType providerConfig msg now) =
     markProviderUnhealthy m providerType providerConfig msg now"
| "apply_operation m (MarkHealthy providerType providerConfig resetUsageCount model now) =
     markProviderHealthy m providerType providerConfig resetUsageCount model now"
| "apply_operation m (ResetCounters providerType providerConfig) =
     resetProviderCounters m providerType providerConfig"
| "apply_operation m (Disable providerType providerConfig) =
     disableProvider m providerType providerConfig"
| "apply_operation m (Enable providerType providerConfig) =
     enableProvider m providerType providerConfig"
| "apply_operation m (RecoveryProbe formatKiroUsage serviceAdapter providerType providerConfig now) =
     tryRecoverProvider formatKiroUsage serviceAdapter m providerType providerConfig now"
| "apply_operation m (HealthChecks formatKiroUsage getServiceAdapter now) =
     performHealthChecks formatKiroUsage getServiceAdapter m now"
| "apply_operation m (TimerFires disk) = manager_flushed (timer_fires m disk)"

text \<open>An unhealthy entry carries the time of its last error.\<close>

definition error_time_known :: "provider_config \<Rightarrow> bool" where
  "error_time_known c = (isHealthy c \<noteq> Val False \<or> truthy_obj (lastErrorTime c))"

definition unhealthy_have_error_time :: "manager \<Rightarrow> bool" where
  "unhealthy_have_error_time m =
     list_all (\<lambda>kv. list_all (\<lambda>p. error_time_known (config p)) (snd kv)) (providerStatus m)"

definition document_has_error_times :: "pool_document \<Rightarrow> bool" where
  "document_has_error_times doc = list_all (\<lambda>kv. list_all error_time_known (snd kv)) doc"

text \<open>The positions of the healthy, enabled entries of a family, in the order of its list.\<close>

definition healthy_enabled :: "manager \<Rightarrow> string \<Rightarrow> nat list" where
  "healthy_enabled m providerType =
     filter (\<lambda>i. truthy_bool (isHealthy (config (family m providerType ! i))))
       (enabledProviders (family m providerType) [])"

text \<open>The candidate list of a selection: the one \<^verbatim>\<open>selectProvider\<close> indexes.\<close>

definition selection_candidates :: "manager \<Rightarrow> string \<Rightarrow> string option \<Rightarrow> timestamp \<Rightarrow> nat list" where
  "selection_candidates m providerType requestedModel now =
     (let model = (case requestedModel of None \<Rightarrow> [] | Some r \<Rightarrow> r);
          enabled = enabledProviders (family m providerType) model
      in candidateProviders
           (fst (recoverySweep (healthCheckInterval m) now enabled (family m providerType)))
           enabled)"

text \<open>
  Loading a document and writing the families \<open>types\<close> back with no operation in
  between: the families are put in the pending set by hand, since an untouched
  manager has nothing pending and its flush writes nothing.
\<close>

definition reserialize :: "pool_document \<Rightarrow> options \<Rightarrow> string list \<Rightarrow> pool_document option" where
  "reserialize doc opts types =
     written (flushPendingSaves
                ((new_manager doc opts) \<lparr> pendingSaves := types, saveTimer := True \<rparr>)
                (Parsed doc))"



definition has_active_quota :: "quota \<Rightarrow> bool" where
  "has_active_quota q = (0 < or_zero (usageLimit q) \<and> or_zero (currentUsage q) < or_zero (usageLimit q))"


text \<open>A pool of entries, each of which carries an error time when it is unhealthy.\<close>

definition pool_ok :: "provider list \<Rightarrow> bool" where
  "pool_ok pool = list_all (\<lambda>p. error_time_known (config p)) pool"

text \<open>The outcomes of reading the pool file on which the flush gives up.\<close>

definition read_failed :: "read_outcome \<Rightarrow> bool" where
  "read_failed disk =
     (case disk of
        Parsed d \<Rightarrow> False
      | ParseFails \<Rightarrow> True
      | ReadFails code \<Rightarrow> code \<noteq> Val ''ENOENT'')"

text \<open>
  The document in which the entries of the families \<open>T\<close> are written as the manager
  holds them after loading, and every other family is as it was.
\<close>

definition saved_document :: "string set \<Rightarrow> pool_document \<Rightarrow> pool_document" where
  "saved_document T doc =
     map (\<lambda>kv. (fst kv,
                 if fst kv \<in> T then map (\<lambda>c. stringify_config (init_config c)) (snd kv)
                 else snd kv)) doc"

text \<open>Totals to which the quantities of a list of buckets have been added.\<close>

definition totals_plus :: "totals \<Rightarrow> quota list \<Rightarrow> totals" where
  "totals_plus t qs =
     \<lparr> totalUsed = totalUsed t + (\<Sum>q\<leftarrow>qs. or_zero (currentUsage q)),
       totalLimit = totalLimit t + (\<Sum>q\<leftarrow>qs. or_zero (usageLimit q)),
       hasActiveQuota = (hasActiveQuota t \<or> (\<exists>q \<in> set qs. has_active_quota q)) \<rparr>"

text \<open>
  The two payloads of the Kiro family in the words of the specification, and the two
  shapes of the result of a chat-send probe.
\<close>

definition kiro_messages_request :: "string \<Rightarrow> json" where
  "kiro_messages_request model =
     JObj [(''messages'', JArr [JObj [(''role'', JStr ''user''), (''content'', JStr ''Hi'')]]),
           (''model'', JStr model),
           (''max_tokens'', JNum 1)]"

definition kiro_contents_request :: json where
  "kiro_contents_request =
     JObj [(''contents'',
            JArr [JObj [(''role'', JStr ''user''), (''parts'', JArr [JObj [(''text'', JStr ''Hi'')]])]]),
           (''max_tokens'', JNum 1)]"

definition probe_success :: "string \<Rightarrow> health_result" where
  "probe_success model =
     \<lparr> success = True, errorMessage = Null, verdict_usageInfo = Absent, modelName = Val model \<rparr>"

definition probe_failure :: "string \<Rightarrow> string \<Rightarrow> health_result" where
  "probe_failure model msg =
     \<lparr> success = False, errorMessage = Val msg, verdict_usageInfo = Absent, modelName = Val model \<rparr>"

section \<open>Concrete pools, snapshots and adapters\<close>

text \<open>An entry as an operator writes it: an identifier and nothing else.\<close>

definition blank_config :: "string \<Rightarrow> provider_config" where
  "blank_config u =
     \<lparr> uuid = Val u, checkModelName = Absent, checkHealth = Absent, notSupportedModels = Absent,
       isHealthy = Absent, isDisabled = Absent, lastUsed = Absent, usageCount = Absent,
       errorCount = Absent, lastErrorTime = Absent, lastHealthCheckTime = Absent,
       lastHealthCheckModel = Absent, lastErrorMessage = Absent, usageInfo = Absent,
       extras = [] \<rparr>"

definition default_options :: options where
  "default_options = \<lparr> opt_maxErrorCount = None, opt_healthCheckInterval = None \<rparr>"

text \<open>Two OpenAI-custom entries A and B, freshly loaded.\<close>

definition example_document :: pool_document where
  "example_document = [(''openai-custom'', [blank_config ''A'', blank_config ''B''])]"

definition example_manager :: manager where
  "example_manager = new_manager example_document default_options"

text \<open>The same manager after one selection: the family is pending and the timer armed.\<close>

definition dirty_manager :: manager where
  "dirty_manager = manager_after (selectProvider example_manager ''openai-custom'' None False 1000)"

text \<open>The same manager with an index left over from a longer candidate list.\<close>

definition stale_manager :: manager where
  "stale_manager = example_manager \<lparr> roundRobinIndex := [(''openai-custom'', 7)] \<rparr>"

text \<open>An entry that three errors have made unhealthy, and the pool that holds it.\<close>

definition failed_entry :: provider_config where
  "failed_entry =
     (blank_config ''X'')
       \<lparr> isHealthy := Val False, usageCount := Val (Num 7), errorCount := Val (Num 3),
         lastErrorTime := Val 5, lastErrorMessage := Val ''timeout'' \<rparr>"

definition recovering_document :: pool_document where
  "recovering_document = [(''claude-custom'', [failed_entry])]"

definition recovering_manager :: manager where
  "recovering_manager = new_manager recovering_document default_options"

text \<open>A document that marks an entry unhealthy and gives no error time.\<close>

definition unlabelled_document :: pool_document where
  "unlabelled_document = [(''claude-custom'', [(blank_config ''X'') \<lparr> isHealthy := Val False \<rparr>])]"

text \<open>A Kiro entry with the comment keys of the import tool, and documents that hold it.\<close>

definition commented_entry :: provider_config where
  "commented_entry =
     (blank_config ''K'')
       \<lparr> extras := [(''_comment'', JStr ''imported''), (''_originalId'', JStr ''7'')] \<rparr>"

definition commented_document :: pool_document where
  "commented_document = [(''claude-kiro-oauth'', [commented_entry])]"

definition complete_document :: pool_document where
  "complete_document =
     [(''claude-kiro-oauth'', [init_config commented_entry]),
      (''openai-custom'', [blank_config ''A''])]"

definition checked_entry :: provider_config where
  "checked_entry = (blank_config ''K'') \<lparr> checkHealth := Val True \<rparr>"



text \<open>
  Adapters: one that rejects the messages payload and accepts the contents payload, one
  whose every call throws an error with an empty message, and one whose usage query throws.
\<close>

definition fallback_adapter :: adapter where
  "fallback_adapter =
     \<lparr> generateContent =
         (\<lambda>model request. if request = kiro_contents_request then None
                           else Some (Val ''400 Bad Request'')),
       getUsageLimits = None, forceRefreshToken = None, refreshToken = None \<rparr>"

definition mute_adapter :: adapter where
  "mute_adapter =
     \<lparr> generateContent = (\<lambda>model request. Some (Val [])),
       getUsageLimits = None, forceRefreshToken = None, refreshToken = None \<rparr>"

definition quota_down_adapter :: adapter where
  "quota_down_adapter =
     \<lparr> generateContent = (\<lambda>model request. None),
       getUsageLimits = Some (Inl (Val ''socket hang up'')),
       forceRefreshToken = Some None, refreshToken = None \<rparr>"

definition no_usage_format :: "json \<Rightarrow> formatted_usage option" where
  "no_usage_format raw = None"

section \<open>Auxiliary facts\<close>

subsection \<open>Lookup and assignment\<close>

lemma find_index_of_Some:
  "find_index_of P xs = Some i \<Longrightarrow> i < length xs \<and> P (xs ! i)"
proof (induction xs arbitrary: i)
  case Nil
  then show ?case by simp
next
  case (Cons x xs)
  then show ?case by (cases "P x") auto
qed

lemma findProvider_Some:
  assumes "findProvider m t u = Some i"
  shows "i < length (family m t)" and "status_uuid (family m t ! i) = u"
    and "t \<noteq> []" and "truthy_str u"
  using assms
  by (auto simp: findProvider_def family_def split: if_splits option.splits
      dest: find_index_of_Some)

lemma family_set_config_same:
  "family (set_config t i f m) t =
     (family m t)[i := (family m t ! i) \<lparr> config := f (config (family m t ! i)) \<rparr>]"
  by (simp add: family_def set_config_def map_of_map_entry split: option.splits)

lemma family_set_config_other:
  "t' \<noteq> t \<Longrightarrow> family (set_config t i f m) t' = family m t'"
  by (simp add: family_def set_config_def map_of_map_entry)

lemma family_debouncedSave [simp]: "family (debouncedSave t m) t' = family m t'"
  by (simp add: family_def debouncedSave_def)

lemma config_family_set_config:
  "i < length (family m t) \<Longrightarrow>
   config (family (set_config t i f m) t ! j) =
     (if j = i then f (config (family m t ! i)) else config (family m t ! j))"
  by (simp add: family_set_config_same nth_list_update)

lemma roundRobinIndex_set_config [simp]:
  "roundRobinIndex (set_config t i f m) = roundRobinIndex m"
  by (simp add: set_config_def)

lemma roundRobinIndex_debouncedSave [simp]:
  "roundRobinIndex (debouncedSave t m) = roundRobinIndex m"
  by (simp add: debouncedSave_def)

lemma find_index_of_first:
  "i < length xs \<Longrightarrow> P (xs ! i) \<Longrightarrow> \<forall>j<i. \<not> P (xs ! j) \<Longrightarrow> find_index_of P xs = Some i"
proof (induction xs arbitrary: i)
  case Nil
  then show ?case by simp
next
  case (Cons x xs)
  show ?case
  proof (cases i)
    case 0
    with Cons.prems show ?thesis by simp
  next
    case (Suc k)
    have "\<not> P x" using Cons.prems(3) Suc by auto
    moreover have "find_index_of P xs = Some k"
      using Cons.prems Suc by (intro Cons.IH) auto
    ultimately show ?thesis using Suc by simp
  qed
qed

text \<open>
  The lookup finds an entry of the family whose identifier is a non-empty string that no
  earlier entry of the family has.
\<close>

lemma findProvider_first:
  assumes "t \<noteq> []" and "truthy_str u" and "i < length (family m t)"
    and "status_uuid (family m t ! i) = u"
    and "\<forall>j<i. status_uuid (family m t ! j) \<noteq> u"
  shows "findProvider m t u = Some i"
proof (cases "map_of (providerStatus m) t")
  case None
  then show ?thesis using assms(3) by (simp add: family_def)
next
  case (Some pool)
  then have "family m t = pool" by (simp add: family_def)
  then have "find_index_of (\<lambda>p. status_uuid p = u) pool = Some i"
    using assms(3,4,5) by (intro find_index_of_first) auto
  then show ?thesis using assms(1,2) Some by (simp add: findProvider_def)
qed

subsection \<open>The recovery sweep and one selection\<close>

lemma recoverySweep_nth:
  "\<exists>x. fst (recoverySweep iv now idxs pool) ! j =
         (pool ! j) \<lparr> config := (config (pool ! j)) \<lparr> lastErrorTime := x \<rparr> \<rparr>"
proof (induction idxs arbitrary: pool)
  case Nil
  have "pool ! j = (pool ! j) \<lparr> config := (config (pool ! j)) \<lparr> lastErrorTime := lastErrorTime (config (pool ! j)) \<rparr> \<rparr>"
    by simp
  then show ?case by (metis recoverySweep.simps(1) fst_conv)
next
  case (Cons i rest)
  show ?case
  proof (cases "recovery_due iv now (config (pool ! i))")
    case False
    then show ?thesis using Cons.IH [of pool] by simp
  next
    case True
    let ?pool' = "pool[i := (pool ! i) \<lparr> config := (config (pool ! i)) \<lparr> lastErrorTime := Val now \<rparr> \<rparr>]"
    obtain x where x: "fst (recoverySweep iv now rest ?pool') ! j =
        (?pool' ! j) \<lparr> config := (config (?pool' ! j)) \<lparr> lastErrorTime := x \<rparr> \<rparr>"
      using Cons.IH [of ?pool'] by blast
    have "\<exists>y. (?pool' ! j) \<lparr> config := (config (?pool' ! j)) \<lparr> lastErrorTime := x \<rparr> \<rparr> =
        (pool ! j) \<lparr> config := (config (pool ! j)) \<lparr> lastErrorTime := y \<rparr> \<rparr>"
    proof (cases "j = i \<and> i < length pool")
      case True
      then have "(?pool' ! j) \<lparr> config := (config (?pool' ! j)) \<lparr> lastErrorTime := x \<rparr> \<rparr> =
          (pool ! j) \<lparr> config := (config (pool ! j)) \<lparr> lastErrorTime := x \<rparr> \<rparr>"
        by simp
      then show ?thesis by blast
    next
      case False
      then have "?pool' ! j = pool ! j"
        by (cases "j = i") (auto simp: list_update_beyond)
      then show ?thesis by auto
    qed
    with x True show ?thesis
      by (auto simp: split_beta)
  qed
qed

lemma recoverySweep_length [simp]:
  "length (fst (recoverySweep iv now idxs pool)) = length pool"
proof (induction idxs arbitrary: pool)
  case Nil
  then show ?case by simp
next
  case (Cons i rest)
  then show ?case by (simp add: split_beta)
qed

lemma recoverySweep_isHealthy [simp]:
  "isHealthy (config (fst (recoverySweep iv now idxs pool) ! j)) = isHealthy (config (pool ! j))"
  using recoverySweep_nth [of iv now idxs pool j] by auto

lemma recoverySweep_usageCount [simp]:
  "usageCount (config (fst (recoverySweep iv now idxs pool) ! j)) = usageCount (config (pool ! j))"
  using recoverySweep_nth [of iv now idxs pool j] by auto

lemma recoverySweep_isDisabled [simp]:
  "isDisabled (config (fst (recoverySweep iv now idxs pool) ! j)) = isDisabled (config (pool ! j))"
  using recoverySweep_nth [of iv now idxs pool j] by auto

lemma recoverySweep_notSupportedModels [simp]:
  "notSupportedModels (config (fst (recoverySweep iv now idxs pool) ! j)) =
     notSupportedModels (config (pool ! j))"
  using recoverySweep_nth [of iv now idxs pool j] by auto

lemma candidateProviders_sweep [simp]:
  "candidateProviders (fst (recoverySweep iv now idxs pool)) enabled =
     candidateProviders pool enabled"
  by (simp add: candidateProviders_def)

lemma enabledProviders_bound:
  "i \<in> set (enabledProviders pool model) \<Longrightarrow> i < length pool"
  by (auto simp: enabledProviders_def Let_def split: if_splits)

lemma candidateProviders_subset:
  "set (candidateProviders pool enabled) \<subseteq> set enabled"
  by (auto simp: candidateProviders_def Let_def)

lemma candidateProviders_empty_iff:
  "candidateProviders pool enabled = [] \<longleftrightarrow> enabled = []"
  by (auto simp: candidateProviders_def Let_def)

lemma family_replace:
  "family m t \<noteq> [] \<Longrightarrow>
   family (m \<lparr> providerStatus := AList.map_entry t (\<lambda>_. new) (providerStatus m),
               roundRobinIndex := r \<rparr>) t = new"
  by (simp add: family_def map_of_map_entry split: option.splits)

lemma family_replace_other:
  "t' \<noteq> t \<Longrightarrow>
   family (m \<lparr> providerStatus := AList.map_entry t f (providerStatus m),
               roundRobinIndex := r \<rparr>) t' = family m t'"
  by (simp add: family_def map_of_map_entry)

lemma currentIndex_update:
  "currentIndex (m \<lparr> roundRobinIndex := AList.update k v (roundRobinIndex m) \<rparr>) k' =
     (if k' = k then v else currentIndex m k')"
  by (simp add: currentIndex_def update_conv')

lemma currentIndex_cong:
  "roundRobinIndex m' = roundRobinIndex m \<Longrightarrow> currentIndex m' k = currentIndex m k"
  by (simp add: currentIndex_def)

text \<open>What a selection does when some entry is enabled.\<close>

lemma selectProvider_some:
  fixes m t rm skip now
  defines "model \<equiv> (case rm of None \<Rightarrow> [] | Some r \<Rightarrow> r)"
  defines "cands \<equiv> selection_candidates m t rm now"
  defines "sel \<equiv> cands ! (currentIndex m (indexKey t model) mod length cands)"
  defines "r \<equiv> selectProvider m t rm skip now"
  assumes t: "t \<noteq> []" and cands: "cands \<noteq> []"
  shows "map_option fst (selected r) = Some sel"
    and "sel \<in> set cands"
    and "sel < length (family m t)"
    and "roundRobinIndex (manager_after r) =
           AList.update (indexKey t model)
             ((currentIndex m (indexKey t model) + 1) mod length cands) (roundRobinIndex m)"
    and "family (manager_after r) t =
           (let swept = fst (recoverySweep (healthCheckInterval m) now
                               (enabledProviders (family m t) model) (family m t))
            in if skip then swept
               else swept[sel := (swept ! sel)
                      \<lparr> config := (config (swept ! sel))
                           \<lparr> lastUsed := Val now,
                             usageCount := increment (usageCount (config (swept ! sel))) \<rparr> \<rparr>])"
    and "selected r = Some (sel, config (family (manager_after r) t ! sel))"
proof -
  let ?enabled = "enabledProviders (family m t) model"
  let ?sweep = "recoverySweep (healthCheckInterval m) now ?enabled (family m t)"
  have cands_eq: "cands = candidateProviders (fst ?sweep) ?enabled"
    by (simp add: cands_def selection_candidates_def model_def Let_def)
  have en: "?enabled \<noteq> []"
    using cands cands_eq by (auto simp: candidateProviders_empty_iff simp del: candidateProviders_sweep)
  have fam: "family m t \<noteq> []"
    using en by (auto simp: enabledProviders_def)
  show in_cands: "sel \<in> set cands"
    using cands by (simp add: sel_def)
  show bound: "sel < length (family m t)"
    using in_cands candidateProviders_subset [of "fst ?sweep" ?enabled] enabledProviders_bound
    unfolding cands_eq by blast
  have r_eq: "r = (let m1 = m \<lparr> providerStatus := AList.map_entry t (\<lambda>_. fst ?sweep) (providerStatus m),
                          roundRobinIndex := AList.update (indexKey t model)
                              ((currentIndex m (indexKey t model) + 1) mod length cands)
                              (roundRobinIndex m) \<rparr>;
                 m2 = (if skip then m1
                       else debouncedSave t
                              (set_config t sel
                                 (\<lambda>c. c \<lparr> lastUsed := Val now,
                                          usageCount := increment (usageCount c) \<rparr>) m1))
             in \<lparr> selected = Some (sel, config (family m2 t ! sel)),
                  recoveries = snd ?sweep, manager_after = m2 \<rparr>)"
    using t en unfolding r_def selectProvider_def cands_eq sel_def model_def Let_def
    by simp
  show "map_option fst (selected r) = Some sel"
    by (simp add: r_eq Let_def)
  show "roundRobinIndex (manager_after r) =
           AList.update (indexKey t model)
             ((currentIndex m (indexKey t model) + 1) mod length cands) (roundRobinIndex m)"
    by (simp add: r_eq Let_def)
  show "family (manager_after r) t =
           (let swept = fst ?sweep
            in if skip then swept
               else swept[sel := (swept ! sel)
                      \<lparr> config := (config (swept ! sel))
                           \<lparr> lastUsed := Val now,
                             usageCount := increment (usageCount (config (swept ! sel))) \<rparr> \<rparr>])"
    by (simp add: r_eq Let_def family_replace [OF fam] family_set_config_same)
  show "selected r = Some (sel, config (family (manager_after r) t ! sel))"
    by (simp add: r_eq Let_def)
qed

subsection \<open>Counting the steps that hit a position\<close>

lemma shifted_mod_last:
  fixes x n p :: nat
  assumes "p < n"
  shows "(x + (n - 1 - p)) mod n = n - 1 \<longleftrightarrow> x mod n = p"
proof -
  define y where "y = x mod n"
  define c where "c = n - 1 - p"
  have y: "y < n" using assms by (simp add: y_def)
  have "(x + c) mod n = (y + c) mod n"
    by (simp add: y_def mod_add_left_eq)
  also have "\<dots> = (if y + c < n then y + c else y + c - n)"
    using y assms by (simp add: c_def mod_if)
  finally have "(x + c) mod n = (if y + c < n then y + c else y + c - n)" .
  then show ?thesis
    using y assms unfolding c_def y_def [symmetric] by (auto split: if_splits)
qed

lemma hits_potential:
  fixes a n p k :: nat
  assumes "p < n"
  shows "n * length (filter (\<lambda>j. (a + j) mod n = p) [0..<k]) + (a + k + (n - 1 - p)) mod n
           = k + (a + (n - 1 - p)) mod n"
proof (induction k)
  case 0
  then show ?case by simp
next
  case (Suc k)
  have step: "(a + Suc k + (n - 1 - p)) mod n =
      (if (a + k) mod n = p then 0 else Suc ((a + k + (n - 1 - p)) mod n))"
  proof -
    have "a + Suc k + (n - 1 - p) = Suc (a + k + (n - 1 - p))" by simp
    then have "(a + Suc k + (n - 1 - p)) mod n =
        (if Suc ((a + k + (n - 1 - p)) mod n) = n then 0 else Suc ((a + k + (n - 1 - p)) mod n))"
      by (simp only: mod_Suc)
    moreover have "Suc ((a + k + (n - 1 - p)) mod n) = n \<longleftrightarrow> (a + k) mod n = p"
      using shifted_mod_last [OF assms, of "a + k"] assms by auto
    ultimately show ?thesis by simp
  qed
  show ?case
  proof (cases "(a + k) mod n = p")
    case True
    then have last: "(a + k + (n - 1 - p)) mod n = n - 1"
      using shifted_mod_last [OF assms, of "a + k"] by simp
    show ?thesis
      using Suc.IH True last step assms by (simp add: algebra_simps)
  next
    case False
    then show ?thesis
      using Suc.IH step by simp
  qed
qed

lemma hits_between:
  fixes a n p k :: nat
  assumes "p < n"
  defines "h \<equiv> length (filter (\<lambda>j. (a + j) mod n = p) [0..<k])"
  shows "h = k div n \<or> h = (k + n - 1) div n"
proof -
  have n: "0 < n" using assms by simp
  have pot: "n * h + (a + k + (n - 1 - p)) mod n = k + (a + (n - 1 - p)) mod n"
    unfolding h_def by (rule hits_potential [OF assms(1)])
  have r0: "(a + (n - 1 - p)) mod n \<le> n - 1" and rk: "(a + k + (n - 1 - p)) mod n \<le> n - 1"
    using n by (simp_all add: less_Suc_eq_le [symmetric])
  have up: "n * h \<le> k + n - 1" using pot r0 n by linarith
  have lo: "k < n * (h + 1)" using pot rk n by (simp add: algebra_simps)
  have "h \<le> (k + n - 1) div n"
    using up n by (simp add: less_eq_div_iff_mult_less_eq mult.commute)
  moreover have "k div n \<le> h"
  proof -
    have "k div n < h + 1" using lo n by (simp add: div_less_iff_less_mult mult.commute)
    then show ?thesis by simp
  qed
  moreover have "(k + n - 1) div n \<le> k div n + 1"
  proof -
    have "(k + n - 1) div n \<le> (k + n) div n" by (rule div_le_mono) simp
    then show ?thesis using n by simp
  qed
  ultimately show ?thesis by linarith
qed

subsection \<open>Successive selections among healthy entries\<close>

lemma selection_candidates_healthy:
  assumes "healthy_enabled m t \<noteq> []"
  shows "selection_candidates m t None now = healthy_enabled m t"
  using assms
  by (simp add: selection_candidates_def healthy_enabled_def candidateProviders_def Let_def)

lemma enabledProviders_cong:
  assumes "length pool' = length pool"
    and "\<And>j. j < length pool \<Longrightarrow> isDisabled (config (pool' ! j)) = isDisabled (config (pool ! j))"
    and "\<And>j. j < length pool \<Longrightarrow>
           notSupportedModels (config (pool' ! j)) = notSupportedModels (config (pool ! j))"
  shows "enabledProviders pool' model = enabledProviders pool model"
proof -
  let ?enabled = "filter (\<lambda>i. \<not> truthy_bool (isDisabled (config (pool ! i)))) [0..<length pool]"
  have a: "filter (\<lambda>i. \<not> truthy_bool (isDisabled (config (pool' ! i)))) [0..<length pool] =
        ?enabled"
    by (rule filter_cong) (simp_all add: assms(2))
  have b: "filter (\<lambda>i. supportsModel model (pool' ! i)) ?enabled =
        filter (\<lambda>i. supportsModel model (pool ! i)) ?enabled"
    by (rule filter_cong) (auto simp: supportsModel_def assms(3))
  show ?thesis
    unfolding enabledProviders_def Let_def assms(1) a b by (rule refl)
qed

text \<open>One selection among healthy entries, with no model and default options.\<close>

lemma select_step:
  fixes m :: manager and t :: string and now :: timestamp and cs :: "nat list"
  assumes t: "t \<noteq> []" and cs: "healthy_enabled m t = cs" "cs \<noteq> []"
  defines "r \<equiv> selectProvider m t None False now"
  defines "sel \<equiv> cs ! (currentIndex m t mod length cs)"
  shows "map_option fst (selected r) = Some sel"
    and "healthy_enabled (manager_after r) t = cs"
    and "currentIndex (manager_after r) t = (currentIndex m t + 1) mod length cs"
    and "length (family (manager_after r) t) = length (family m t)"
    and "\<And>i. i < length (family m t) \<Longrightarrow>
           usageCount (config (family (manager_after r) t ! i)) =
             (if i = sel then increment (usageCount (config (family m t ! i)))
              else usageCount (config (family m t ! i)))"
proof -
  have cands: "selection_candidates m t None now = cs"
    using cs selection_candidates_healthy [of m t now] by simp
  have ne: "selection_candidates m t None now \<noteq> []"
    using cands cs by simp
  note f1 = selectProvider_some(1) [OF t ne, where skip = False]
  note f3 = selectProvider_some(3) [OF t ne]
  note f4 = selectProvider_some(4) [OF t ne, where skip = False]
  note f5 = selectProvider_some(5) [OF t ne, where skip = False]
  have key: "indexKey t [] = t" by (simp add: indexKey_def)
  show "map_option fst (selected r) = Some sel"
    using f1 by (simp add: key sel_def r_def cands)
  have sel_bound: "sel < length (family m t)"
    using f3 by (simp add: key sel_def cands)
  let ?swept = "fst (recoverySweep (healthCheckInterval m) now (enabledProviders (family m t) [])
                      (family m t))"
  have fam: "family (manager_after r) t =
      ?swept[sel := (?swept ! sel)
                \<lparr> config := (config (?swept ! sel))
                     \<lparr> lastUsed := Val now,
                       usageCount := increment (usageCount (config (?swept ! sel))) \<rparr> \<rparr>]"
    using f5 by (simp add: key sel_def r_def cands Let_def)
  show len: "length (family (manager_after r) t) = length (family m t)"
    by (simp add: fam)
  have dis: "\<And>j. j < length (family m t) \<Longrightarrow>
      isDisabled (config (family (manager_after r) t ! j)) = isDisabled (config (family m t ! j))"
    using sel_bound by (simp add: fam nth_list_update)
  have nsm: "\<And>j. j < length (family m t) \<Longrightarrow>
      notSupportedModels (config (family (manager_after r) t ! j)) =
        notSupportedModels (config (family m t ! j))"
    using sel_bound by (simp add: fam nth_list_update)
  have hl: "\<And>j. j < length (family m t) \<Longrightarrow>
      isHealthy (config (family (manager_after r) t ! j)) = isHealthy (config (family m t ! j))"
    using sel_bound by (simp add: fam nth_list_update)
  have en: "enabledProviders (family (manager_after r) t) [] = enabledProviders (family m t) []"
    by (rule enabledProviders_cong [OF len dis nsm])
  have "filter (\<lambda>i. truthy_bool (isHealthy (config (family (manager_after r) t ! i))))
          (enabledProviders (family m t) []) =
        filter (\<lambda>i. truthy_bool (isHealthy (config (family m t ! i))))
          (enabledProviders (family m t) [])"
    by (rule filter_cong) (auto simp: hl dest: enabledProviders_bound)
  then show "healthy_enabled (manager_after r) t = cs"
    using cs(1) by (simp add: healthy_enabled_def en)
  show "currentIndex (manager_after r) t = (currentIndex m t + 1) mod length cs"
    using f4 by (simp add: key r_def cands currentIndex_def update_conv')
  show "\<And>i. i < length (family m t) \<Longrightarrow>
           usageCount (config (family (manager_after r) t ! i)) =
             (if i = sel then increment (usageCount (config (family m t ! i)))
              else usageCount (config (family m t ! i)))"
    using sel_bound by (simp add: fam nth_list_update)
qed

lemma select_many_healthy:
  assumes "t \<noteq> []" and "healthy_enabled m t = cs" and "cs \<noteq> []"
  shows "fst (select_many m t clock) =
           map (\<lambda>j. Some (cs ! ((currentIndex m t + j) mod length cs))) [0..<length clock]
         \<and> length (family (snd (select_many m t clock)) t) = length (family m t)
         \<and> (\<forall>i<length (family m t).
              usageCount (config (family (snd (select_many m t clock)) t ! i)) =
                (increment ^^ count_list (fst (select_many m t clock)) (Some i))
                  (usageCount (config (family m t ! i))))"
  using assms(2)
proof (induction clock arbitrary: m)
  case Nil
  then show ?case by simp
next
  case (Cons now later)
  let ?r = "selectProvider m t None False now"
  let ?m' = "manager_after ?r"
  let ?sel = "cs ! (currentIndex m t mod length cs)"
  note step = select_step [OF assms(1) Cons.prems assms(3), where now = now]
  note IH = Cons.IH [OF step(2)]
  have order: "fst (select_many ?m' t later) =
      map (\<lambda>j. Some (cs ! ((currentIndex m t + Suc j) mod length cs))) [0..<length later]"
    using IH by (simp add: step(3) mod_add_left_eq)
  have first: "fst (select_many m t (now # later)) = Some ?sel # fst (select_many ?m' t later)"
    using step(1) by (simp add: Let_def)
  have snd_eq: "snd (select_many m t (now # later)) = snd (select_many ?m' t later)"
    by (simp add: Let_def)
  have 1: "fst (select_many m t (now # later)) =
      map (\<lambda>j. Some (cs ! ((currentIndex m t + j) mod length cs))) [0..<length (now # later)]"
    unfolding first order by (simp add: map_upt_Suc del: upt_Suc)
  have 2: "length (family (snd (select_many m t (now # later))) t) = length (family m t)"
    unfolding snd_eq using IH step(4) by simp
  have 3: "usageCount (config (family (snd (select_many m t (now # later))) t ! i)) =
      (increment ^^ count_list (fst (select_many m t (now # later))) (Some i))
        (usageCount (config (family m t ! i)))" if i: "i < length (family m t)" for i
  proof -
    have "usageCount (config (family (snd (select_many ?m' t later)) t ! i)) =
        (increment ^^ count_list (fst (select_many ?m' t later)) (Some i))
          (usageCount (config (family ?m' t ! i)))"
      using IH i step(4) by simp
    then show ?thesis
      unfolding snd_eq first using step(5) [OF i] by (simp add: funpow_swap1)
  qed
  from 3 have 3: "\<forall>i<length (family m t).
      usageCount (config (family (snd (select_many m t (now # later))) t ! i)) =
        (increment ^^ count_list (fst (select_many m t (now # later))) (Some i))
          (usageCount (config (family m t ! i)))"
    by (intro allI impI)
  show ?case using 1 2 3 by (intro conjI)
qed

lemma count_list_map_nth:
  assumes "distinct cs" and "p < length cs" and "\<And>j. g j < length cs"
  shows "count_list (map (\<lambda>j. Some (cs ! g j)) js) (Some (cs ! p)) =
           length (filter (\<lambda>j. g j = p) js)"
proof (induction js)
  case Nil
  then show ?case by simp
next
  case (Cons j js)
  have "cs ! g j = cs ! p \<longleftrightarrow> g j = p"
    using assms by (simp add: nth_eq_iff_index_eq)
  then show ?case using Cons.IH by simp
qed

lemma distinct_healthy_enabled: "distinct (healthy_enabled m t)"
  by (simp add: healthy_enabled_def enabledProviders_def Let_def)

lemma currentIndex_init_family:
  "currentIndex (init_family kv m) k = (if k = fst kv then 0 else currentIndex m k)"
  by (simp add: currentIndex_def init_family_def update_conv')

lemma currentIndex_fold_init_family:
  "(\<And>k. currentIndex m k = 0) \<Longrightarrow> currentIndex (fold init_family doc m) k = 0"
  by (induction doc arbitrary: m) (simp_all add: currentIndex_init_family)

text \<open>In a fresh manager every round-robin index is 0.\<close>

lemma currentIndex_new_manager: "currentIndex (new_manager doc opts) k = 0"
  unfolding new_manager_def initializeProviderStatus_def
  by (rule currentIndex_fold_init_family) (simp add: currentIndex_def)

subsection \<open>Error times of unhealthy entries\<close>

lemma list_all_map_entry:
  assumes "list_all Q al" and "\<And>v. map_of al k = Some v \<Longrightarrow> Q (k, g v)"
  shows "list_all Q (AList.map_entry k g al)"
  using assms
proof (induction al)
  case Nil
  then show ?case by simp
next
  case (Cons kv al)
  then show ?case by (cases kv) (auto split: if_splits)
qed

lemma list_all_update:
  assumes "list_all Q al" and "Q (k, v)"
  shows "list_all Q (AList.update k v al)"
  using assms
proof (induction al)
  case Nil
  then show ?case by simp
next
  case (Cons kv al)
  then show ?case by (cases kv) auto
qed

lemma unhealthy_have_error_time_alt:
  "unhealthy_have_error_time m = list_all (\<lambda>kv. pool_ok (snd kv)) (providerStatus m)"
  by (simp add: unhealthy_have_error_time_def pool_ok_def)

lemma pool_ok_family:
  "unhealthy_have_error_time m \<Longrightarrow> pool_ok (family m t)"
proof -
  assume a: "unhealthy_have_error_time m"
  show ?thesis
  proof (cases "map_of (providerStatus m) t")
    case None
    then show ?thesis by (simp add: family_def pool_ok_def)
  next
    case (Some pool)
    then have "(t, pool) \<in> set (providerStatus m)" by (rule map_of_SomeD)
    with a have "pool_ok pool"
      by (auto simp: unhealthy_have_error_time_alt list_all_iff)
    with Some show ?thesis by (simp add: family_def)
  qed
qed

lemma pool_ok_update:
  assumes "pool_ok pool" and "error_time_known (config (pool ! i)) \<Longrightarrow> error_time_known (f (config (pool ! i)))"
  shows "pool_ok (pool[i := (pool ! i) \<lparr> config := f (config (pool ! i)) \<rparr>])"
proof (cases "i < length pool")
  case True
  with assms(1) have "error_time_known (config (pool ! i))"
    by (simp add: pool_ok_def list_all_length)
  with assms True show ?thesis
    unfolding pool_ok_def list_all_length by (auto simp: nth_list_update)
next
  case False
  with assms(1) show ?thesis by (simp add: list_update_beyond)
qed

lemma replace_family_ok:
  assumes "unhealthy_have_error_time m"
    and "\<And>pool. map_of (providerStatus m) t = Some pool \<Longrightarrow> pool_ok (g pool)"
  shows "unhealthy_have_error_time (m \<lparr> providerStatus := AList.map_entry t g (providerStatus m) \<rparr>)"
  using assms by (simp add: unhealthy_have_error_time_alt list_all_map_entry)

lemma set_config_ok:
  assumes "unhealthy_have_error_time m"
    and "\<And>c. error_time_known c \<Longrightarrow> error_time_known (f c)"
  shows "unhealthy_have_error_time (set_config t i f m)"
  unfolding set_config_def
proof (rule replace_family_ok [OF assms(1)])
  fix pool assume "map_of (providerStatus m) t = Some pool"
  then have "(t, pool) \<in> set (providerStatus m)" by (rule map_of_SomeD)
  with assms(1) have "pool_ok pool"
    by (auto simp: unhealthy_have_error_time_alt list_all_iff)
  then show "pool_ok (pool[i := (pool ! i) \<lparr> config := f (config (pool ! i)) \<rparr>])"
    by (rule pool_ok_update) (rule assms(2))
qed

lemma debouncedSave_ok [simp]:
  "unhealthy_have_error_time (debouncedSave t m) = unhealthy_have_error_time m"
  by (simp add: unhealthy_have_error_time_def debouncedSave_def)

lemma unhealthy_update_ok: "error_time_known (unhealthy_update k msg now c)"
  by (simp add: unhealthy_update_def error_time_known_def Let_def)

lemma healthy_update_ok: "error_time_known (healthy_update reset model now c)"
  by (simp add: healthy_update_def error_time_known_def Let_def)

lemma record_check_ok: "error_time_known c \<Longrightarrow> error_time_known (record_check model now c)"
  by (simp add: record_check_def error_time_known_def Let_def)

lemma markProviderUnhealthy_ok:
  "unhealthy_have_error_time m \<Longrightarrow>
   unhealthy_have_error_time (markProviderUnhealthy m t pc msg now)"
  by (simp add: markProviderUnhealthy_def set_config_ok unhealthy_update_ok split: option.splits)

lemma markProviderHealthy_ok:
  "unhealthy_have_error_time m \<Longrightarrow>
   unhealthy_have_error_time (markProviderHealthy m t pc reset model now)"
  by (simp add: markProviderHealthy_def set_config_ok healthy_update_ok split: option.splits)

lemma resetProviderCounters_ok:
  "unhealthy_have_error_time m \<Longrightarrow> unhealthy_have_error_time (resetProviderCounters m t pc)"
  by (auto simp: resetProviderCounters_def error_time_known_def intro!: set_config_ok
      split: option.splits)

lemma disableProvider_ok:
  "unhealthy_have_error_time m \<Longrightarrow> unhealthy_have_error_time (disableProvider m t pc)"
  by (auto simp: disableProvider_def error_time_known_def intro!: set_config_ok
      split: option.splits)

lemma enableProvider_ok:
  "unhealthy_have_error_time m \<Longrightarrow> unhealthy_have_error_time (enableProvider m t pc)"
  by (auto simp: enableProvider_def error_time_known_def intro!: set_config_ok
      split: option.splits)

lemma recoverySweep_keeps:
  "pool_ok pool \<Longrightarrow> pool_ok (fst (recoverySweep iv now idxs pool))"
proof (induction idxs arbitrary: pool)
  case Nil
  then show ?case by simp
next
  case (Cons i rest)
  show ?case
  proof (cases "recovery_due iv now (config (pool ! i))")
    case False
    then show ?thesis using Cons by simp
  next
    case True
    have "pool_ok (pool[i := (pool ! i) \<lparr> config := (config (pool ! i)) \<lparr> lastErrorTime := Val now \<rparr> \<rparr>])"
      using Cons.prems by (rule pool_ok_update) (simp add: error_time_known_def)
    then show ?thesis using True Cons.IH by (simp add: split_beta)
  qed
qed

lemma selectProvider_ok:
  assumes "unhealthy_have_error_time m"
  shows "unhealthy_have_error_time (manager_after (selectProvider m t rm skip now))"
proof -
  let ?model = "case rm of None \<Rightarrow> [] | Some r \<Rightarrow> r"
  let ?enabled = "enabledProviders (family m t) ?model"
  let ?sweep = "recoverySweep (healthCheckInterval m) now ?enabled (family m t)"
  have swept: "pool_ok (fst ?sweep)"
    using assms by (intro recoverySweep_keeps pool_ok_family)
  have m1: "unhealthy_have_error_time
      (m \<lparr> providerStatus := AList.map_entry t (\<lambda>_. fst ?sweep) (providerStatus m),
           roundRobinIndex := r \<rparr>)" for r
    using replace_family_ok [OF assms, of t "\<lambda>_. fst ?sweep"] swept
    by (simp add: unhealthy_have_error_time_def)
  show ?thesis
    unfolding selectProvider_def Let_def
    by (auto simp: assms m1 intro!: set_config_ok simp: error_time_known_def)
qed

lemma checkProviderHealthByUsage_ok:
  "unhealthy_have_error_time m \<Longrightarrow>
   unhealthy_have_error_time (manager_probed (checkProviderHealthByUsage fmt m t a pc now))"
  by (auto simp: checkProviderHealthByUsage_def Let_def error_time_known_def
      intro!: set_config_ok split: option.splits sum.splits)

lemma checkProviderHealth_ok:
  "unhealthy_have_error_time m \<Longrightarrow> checkProviderHealth fmt sa m t pc force now = Inr out \<Longrightarrow>
   unhealthy_have_error_time (manager_probed out)"
  by (auto simp: checkProviderHealth_def Let_def checkProviderHealthByUsage_ok
      split: if_splits sum.splits option.splits prod.splits)

lemma tryRecoverProvider_ok:
  assumes "unhealthy_have_error_time m"
  shows "unhealthy_have_error_time (tryRecoverProvider fmt sa m t pc now)"
proof (cases "checkProviderHealth fmt sa m t pc True now")
  case (Inl e)
  then show ?thesis using assms by (simp add: tryRecoverProvider_def)
next
  case (Inr out)
  have ok: "unhealthy_have_error_time (manager_probed out)"
    using assms Inr by (rule checkProviderHealth_ok)
  have upd: "error_time_known c \<Longrightarrow>
      error_time_known (record_check model now (c \<lparr> lastErrorMessage := msg \<rparr>))" for c model msg
    by (simp add: record_check_def error_time_known_def Let_def)
  show ?thesis
    using Inr ok
    by (auto simp: tryRecoverProvider_def markProviderHealthy_ok upd
        intro!: set_config_ok split: option.splits)
qed

lemma check_entry_ok:
  assumes "unhealthy_have_error_time m"
  shows "unhealthy_have_error_time (check_entry fmt gsa now t i m)"
proof -
  let ?pc = "config (family m t ! i)"
  show ?thesis
  proof (cases "checkProviderHealth fmt (gsa t ?pc) m t ?pc False now")
    case (Inl e)
    then show ?thesis
      using assms by (simp add: check_entry_def Let_def markProviderUnhealthy_ok)
  next
    case (Inr out)
    have ok: "unhealthy_have_error_time (manager_probed out)"
      using assms Inr by (rule checkProviderHealth_ok)
    show ?thesis
      using Inr ok assms
      by (auto simp: check_entry_def Let_def markProviderHealthy_ok markProviderUnhealthy_ok
          resetProviderCounters_ok record_check_ok
          intro!: set_config_ok split: option.splits)
  qed
qed

lemma fold_check_entry_ok:
  "unhealthy_have_error_time m \<Longrightarrow>
   unhealthy_have_error_time (fold (check_entry fmt gsa now t) idxs m)"
  by (induction idxs arbitrary: m) (simp_all add: check_entry_ok)

lemma performHealthChecks_ok:
  assumes "unhealthy_have_error_time m"
  shows "unhealthy_have_error_time (performHealthChecks fmt gsa m now)"
proof -
  have "unhealthy_have_error_time m1 \<Longrightarrow>
      unhealthy_have_error_time
        (fold (\<lambda>providerType m1.
                 fold (check_entry fmt gsa now providerType)
                   [0..<length (family m1 providerType)] m1) ts m1)" for ts m1
    by (induction ts arbitrary: m1) (simp_all add: fold_check_entry_ok)
  then show ?thesis
    using assms by (simp add: performHealthChecks_def)
qed

lemma timer_fires_ok:
  "unhealthy_have_error_time m \<Longrightarrow> unhealthy_have_error_time (manager_flushed (timer_fires m disk))"
  by (auto simp: timer_fires_def flushPendingSaves_def Let_def unhealthy_have_error_time_def
      split: option.splits)

lemma init_config_ok: "error_time_known (init_config c) = error_time_known c"
  by (cases "lastErrorTime c")
    (auto simp: init_config_def error_time_known_def defined_or_def obj_or_null_def)

lemma initializeProviderStatus_ok:
  "document_has_error_times doc \<Longrightarrow> unhealthy_have_error_time m \<Longrightarrow>
   unhealthy_have_error_time (initializeProviderStatus doc m)"
  unfolding initializeProviderStatus_def
proof (induction doc arbitrary: m)
  case Nil
  then show ?case by simp
next
  case (Cons kv doc)
  have entries: "list_all error_time_known (snd kv)"
    using Cons.prems(1) by (simp add: document_has_error_times_def)
  have "pool_ok (map init_provider (snd kv))"
    using entries by (simp add: pool_ok_def list_all_iff init_provider_def init_config_ok)
  then have "unhealthy_have_error_time (init_family kv m)"
    using Cons.prems(2)
    by (simp add: init_family_def unhealthy_have_error_time_alt list_all_update)
  moreover have "document_has_error_times doc"
    using Cons.prems(1) by (simp add: document_has_error_times_def)
  ultimately show ?case using Cons.IH by simp
qed

subsection \<open>Requests of the Kiro family\<close>

lemma kiro_requests:
  "buildHealthCheckRequests ''claude-kiro-oauth'' model =
     [kiro_messages_request model, kiro_contents_request]"
  by (simp add: buildHealthCheckRequests_def kiro_messages_request_def kiro_contents_request_def
      baseMessage_def contents_part_def)

lemma kiro_model_name:
  "check_model_name ''claude-kiro-oauth'' pc =
     (if truthy_str (checkModelName pc) then checkModelName pc else Val ''claude-haiku-4-5'')"
  by (simp add: check_model_name_def DEFAULT_HEALTH_CHECK_MODELS_def)

subsection \<open>The arithmetic of doubles\<close>

text \<open>
  The exponent computed by \<open>binary_exponent\<close> is the one of the number; an integer of
  magnitude up to \<open>2 ^ 53\<close> is a double, so that sums within this range are exact.
\<close>

lemma bitlen_bounds_rat:
  assumes "0 < k"
  shows "(2 :: rat) powi (bitlen k - 1) \<le> of_int k" and "of_int k < (2 :: rat) powi bitlen k"
proof -
  have b: "1 \<le> bitlen k"
    using assms bitlen_eq_zero_iff [of k] bitlen_nonneg [of k] by linarith
  have lo: "(2 :: int) ^ nat (bitlen k - 1) \<le> k" and hi: "k < (2 :: int) ^ nat (bitlen k)"
    using bitlen_bounds [OF assms] by simp_all
  have "(2 :: rat) powi (bitlen k - 1) = of_int ((2 :: int) ^ nat (bitlen k - 1))"
    using b by (simp add: power_int_def)
  also have "\<dots> \<le> of_int k"
    using lo by (simp only: of_int_le_iff)
  finally show "(2 :: rat) powi (bitlen k - 1) \<le> of_int k" .
  have "(of_int k :: rat) < of_int ((2 :: int) ^ nat (bitlen k))"
    using hi by (simp only: of_int_less_iff)
  also have "\<dots> = (2 :: rat) powi bitlen k"
    using b by (simp add: power_int_def)
  finally show "of_int k < (2 :: rat) powi bitlen k" .
qed

text \<open>The exponent of a positive number is the exponent of its leading bit.\<close>

lemma binary_exponent_bounds:
  assumes "0 < x"
  shows "2 powi binary_exponent x \<le> x" and "x < 2 powi (binary_exponent x + 1)"
proof -
  obtain p q where pq: "quotient_of x = (p, q)"
    by (cases "quotient_of x")
  have q: "0 < q"
    using pq by (rule quotient_of_denom_pos)
  have x: "x = of_int p / of_int q"
    using pq by (rule quotient_of_div)
  have p: "0 < p"
    using assms q unfolding x by (simp add: zero_less_divide_iff)
  define d where "d = bitlen p - bitlen q"
  have qpos: "(0 :: rat) < of_int q"
    using q by simp
  have upper: "x < 2 powi (d + 1)"
  proof -
    have "x * of_int q = of_int p"
      using q by (simp add: x)
    also have "\<dots> < 2 powi bitlen p"
      by (rule bitlen_bounds_rat [OF p])
    also have "\<dots> = 2 powi (d + 1) * 2 powi (bitlen q - 1)"
      by (simp add: d_def power_int_add [symmetric])
    also have "\<dots> \<le> 2 powi (d + 1) * of_int q"
      using bitlen_bounds_rat(1) [OF q] by (intro mult_left_mono) simp_all
    finally show ?thesis
      using qpos by simp
  qed
  have lower: "2 powi (d - 1) \<le> x"
  proof -
    have "2 powi (d - 1) * of_int q \<le> 2 powi (d - 1) * (2 :: rat) powi bitlen q"
      using bitlen_bounds_rat(2) [OF q] by (intro mult_left_mono) simp_all
    also have "\<dots> = 2 powi (bitlen p - 1)"
      by (simp add: d_def power_int_add [symmetric])
    also have "\<dots> \<le> of_int p"
      by (rule bitlen_bounds_rat [OF p])
    also have "\<dots> = x * of_int q"
      using q by (simp add: x)
    finally show ?thesis
      using qpos by simp
  qed
  have e: "binary_exponent x = (if 2 powi d \<le> x then d else d - 1)"
    by (simp add: binary_exponent_def pq d_def Let_def)
  show "2 powi binary_exponent x \<le> x"
    using lower by (simp add: e)
  show "x < 2 powi (binary_exponent x + 1)"
    using upper by (auto simp: e)
qed




lemma round_half_even_error: "\<bar>of_int (round_half_even m) - m\<bar> \<le> 1 / 2"
proof -
  define r where "r = m - of_int \<lfloor>m\<rfloor>"
  have r: "0 \<le> r" "r < 1"
    unfolding r_def by linarith+
  have f: "of_int \<lfloor>m\<rfloor> = m - r"
    by (simp add: r_def)
  consider "r < 1 / 2" | "1 / 2 < r" | "r = 1 / 2"
    by linarith
  then show ?thesis
  proof cases
    case 1
    then show ?thesis
      unfolding round_half_even_def Let_def r_def [symmetric] using r by (simp add: f)
  next
    case 2
    then show ?thesis
      unfolding round_half_even_def Let_def r_def [symmetric] using r by (simp add: f)
  next
    case 3
    then show ?thesis
      unfolding round_half_even_def Let_def r_def [symmetric] by (simp add: f)
  qed
qed

lemma round_half_even_tie: "m - of_int \<lfloor>m\<rfloor> = 1 / 2 \<Longrightarrow> even (round_half_even m)"
  by (simp add: round_half_even_def Let_def)

lemma round_half_even_mono_bounds:
  assumes "of_int lo \<le> m" and "m \<le> of_int hi"
  shows "lo \<le> round_half_even m" and "round_half_even m \<le> hi"
proof -
  have f: "lo \<le> \<lfloor>m\<rfloor>"
    using assms(1) by (simp add: le_floor_iff)
  have c: "\<lfloor>m\<rfloor> \<le> hi"
    using assms(2) by (simp add: floor_le_iff)
  have top: "\<lfloor>m\<rfloor> + 1 \<le> hi" if "m - of_int \<lfloor>m\<rfloor> \<noteq> 0"
  proof -
    have "of_int \<lfloor>m\<rfloor> < m" using that by linarith
    then have "(of_int \<lfloor>m\<rfloor> :: rat) < of_int hi" using assms(2) by linarith
    then show ?thesis by simp
  qed
  show "lo \<le> round_half_even m"
    using f by (simp add: round_half_even_def Let_def)
  show "round_half_even m \<le> hi"
    using c top by (auto simp: round_half_even_def Let_def)
qed

text \<open>
  The double nearest to a number other than 0: a significand of 53 bits at the exponent
  of the number, within half a unit of the last place.
\<close>

lemma nearest_double_nearest:
  assumes "x \<noteq> 0"
  defines "e \<equiv> binary_exponent \<bar>x\<bar>"
  defines "n \<equiv> round_half_even (\<bar>x\<bar> / 2 powi (e - 52))"
  shows "\<bar>nearest_double x\<bar> = of_int n * 2 powi (e - 52)"
    and "2 ^ 52 \<le> n" and "n \<le> 2 ^ 53"
    and "\<bar>nearest_double x - x\<bar> \<le> 2 powi (e - 53)"
    and "(x < 0) = (nearest_double x < 0)"
proof -
  define a where "a = \<bar>x\<bar>"
  define Q :: rat where "Q = 2 powi (e - 52)"
  have apos: "0 < a" using assms(1) by (simp add: a_def)
  have Qpos: "0 < Q" by (simp add: Q_def)
  note eb = binary_exponent_bounds [OF apos, folded a_def, folded e_def, unfolded a_def [symmetric]]
  have p52: "(2 :: rat) ^ 52 * 2 powi (e - 52) = 2 powi e"
    using power_int_add [of "2 :: rat" 52 "e - 52"] by simp
  have p53: "(2 :: rat) ^ 53 * 2 powi (e - 52) = 2 powi (e + 1)"
    using power_int_add [of "2 :: rat" 53 "e - 52"] by (simp add: add.commute)
  have lo: "of_int (2 ^ 52) \<le> a / Q"
  proof -
    have "of_int (2 ^ 52) * Q = (2 :: rat) ^ 52 * 2 powi (e - 52)"
      by (simp add: Q_def)
    also have "\<dots> = 2 powi e"
      by (rule p52)
    also have "\<dots> \<le> a"
      using eb(1) by (simp add: a_def e_def)
    finally show ?thesis
      using Qpos by (simp add: pos_le_divide_eq)
  qed
  have hi: "a / Q \<le> of_int (2 ^ 53)"
  proof -
    have "a \<le> 2 powi (e + 1)"
      using eb(2) by (simp add: a_def e_def)
    also have "\<dots> = (2 :: rat) ^ 53 * 2 powi (e - 52)"
      by (rule p53 [symmetric])
    also have "\<dots> = of_int (2 ^ 53) * Q"
      by (simp add: Q_def)
    finally show ?thesis
      using Qpos by (simp add: pos_divide_le_eq)
  qed
  have n_def': "n = round_half_even (a / Q)"
    by (simp add: n_def a_def Q_def)
  show n52: "2 ^ 52 \<le> n" and n53: "n \<le> 2 ^ 53"
    unfolding n_def' using round_half_even_mono_bounds [OF lo hi] by simp_all
  have npos: "(0 :: rat) < of_int n * Q"
    using n52 Qpos by (intro mult_pos_pos) simp_all
  have nd: "nearest_double x = (if x < 0 then - (of_int n * Q) else of_int n * Q)"
    using assms(1) by (simp add: nearest_double_def Let_def n_def e_def Q_def)
  show "\<bar>nearest_double x\<bar> = of_int n * 2 powi (e - 52)"
    using npos by (simp add: nd Q_def [symmetric])
  show "(x < 0) = (nearest_double x < 0)"
    using npos by (auto simp: nd)
  have err: "\<bar>of_int n * Q - a\<bar> \<le> 2 powi (e - 53)"
  proof -
    have "of_int n * Q - a = (of_int n - a / Q) * Q"
      using Qpos by (simp add: field_simps)
    then have "\<bar>of_int n * Q - a\<bar> = \<bar>of_int n - a / Q\<bar> * Q"
      using Qpos by (simp add: abs_mult)
    also have "\<dots> \<le> 1 / 2 * Q"
      using round_half_even_error [of "a / Q"] Qpos
      by (intro mult_right_mono) (simp_all add: n_def')
    also have "\<dots> = 2 powi (e - 53)"
    proof -
      have "(2 :: rat) powi (e - 52) = 2 powi (e - 53) * 2"
        using power_int_add [of "2 :: rat" "e - 53" 1] by simp
      then show ?thesis by (simp add: Q_def)
    qed
    finally show ?thesis .
  qed
  show "\<bar>nearest_double x - x\<bar> \<le> 2 powi (e - 53)"
    using err by (cases "x < 0") (simp_all add: nd a_def abs_if split: if_splits)
qed

lemma binary_exponent_range:
  assumes "0 < x" and "2 powi lo \<le> x" and "x < 2 powi hi"
  shows "lo \<le> binary_exponent x" and "binary_exponent x < hi"
proof -
  note eb = binary_exponent_bounds [OF assms(1)]
  show "lo \<le> binary_exponent x"
  proof (rule ccontr)
    assume "\<not> lo \<le> binary_exponent x"
    then have "(2 :: rat) powi (binary_exponent x + 1) \<le> 2 powi lo"
      by (intro power_int_increasing) simp_all
    then show False
      using eb(2) assms(2) by linarith
  qed
  show "binary_exponent x < hi"
  proof (rule ccontr)
    assume "\<not> binary_exponent x < hi"
    then have "(2 :: rat) powi hi \<le> 2 powi binary_exponent x"
      by (intro power_int_increasing) simp_all
    then show False
      using eb(1) assms(3) by linarith
  qed
qed

text \<open>
  The exponents met when the percentage of two totals within \<open>2 ^ 53\<close> is computed: they
  lie well inside the range of the normal doubles, from \<open>-1022\<close> to \<open>1023\<close>, where a
  double has the 53 bits of significand assumed by \<open>nearest_double\<close>.
\<close>

lemma usage_percent_exponents:
  assumes "k \<noteq> 0" and "\<bar>k\<bar> \<le> 2 ^ 53" and "0 < l" and "l \<le> 2 ^ 53"
  defines "x \<equiv> (of_int k / of_int l :: rat)"
  shows "- 53 \<le> binary_exponent \<bar>x\<bar>" and "binary_exponent \<bar>x\<bar> \<le> 53"
    and "- 53 \<le> binary_exponent \<bar>nearest_double x * 100\<bar>"
    and "binary_exponent \<bar>nearest_double x * 100\<bar> \<le> 60"
proof -
  define e where "e = binary_exponent \<bar>x\<bar>"
  have lr: "(0 :: rat) < of_int l" "(1 :: rat) \<le> of_int l" "(of_int l :: rat) \<le> 2 ^ 53"
  proof -
    show "(0 :: rat) < of_int l" using assms(3) by simp
    have "1 \<le> l" using assms(3) by linarith
    then have "(of_int 1 :: rat) \<le> of_int l" by (simp only: of_int_le_iff)
    then show "(1 :: rat) \<le> of_int l" by simp
    have "(of_int l :: rat) \<le> of_int (2 ^ 53)" using assms(4) by (simp only: of_int_le_iff)
    then show "(of_int l :: rat) \<le> 2 ^ 53" by simp
  qed
  have kr: "(1 :: rat) \<le> \<bar>of_int k\<bar>" "\<bar>of_int k :: rat\<bar> \<le> 2 ^ 53"
  proof -
    have "1 \<le> \<bar>k\<bar>" using assms(1) by linarith
    then have "(of_int 1 :: rat) \<le> of_int \<bar>k\<bar>" by (simp only: of_int_le_iff)
    then show "(1 :: rat) \<le> \<bar>of_int k\<bar>" by simp
    have "(of_int \<bar>k\<bar> :: rat) \<le> of_int (2 ^ 53)" using assms(2) by (simp only: of_int_le_iff)
    then show "\<bar>of_int k :: rat\<bar> \<le> 2 ^ 53" by simp
  qed
  have absx: "\<bar>x\<bar> = \<bar>of_int k\<bar> / of_int l"
    using lr(1) by (simp add: x_def)
  have xpos: "0 < \<bar>x\<bar>"
    using assms(1) lr(1) by (simp add: x_def)
  have xlo: "2 powi (- 53) \<le> \<bar>x\<bar>"
  proof -
    have "(2 :: rat) powi (- 53) = 1 / 2 ^ 53"
      by (simp add: power_int_minus field_simps)
    also have "\<dots> \<le> \<bar>of_int k\<bar> / of_int l"
      using kr(1) lr(1,3) by (intro frac_le) simp_all
    finally show ?thesis by (simp only: absx)
  qed
  have xhi: "\<bar>x\<bar> < 2 powi 54"
  proof -
    have "\<bar>of_int k :: rat\<bar> / of_int l \<le> 2 ^ 53 / 1"
      using kr(2) lr(2) by (intro frac_le) simp_all
    also have "\<dots> < (2 :: rat) powi 54" by simp
    finally show ?thesis by (simp only: absx)
  qed
  show e_lo: "- 53 \<le> binary_exponent \<bar>x\<bar>"
    by (rule binary_exponent_range(1) [OF xpos xlo xhi])
  have "binary_exponent \<bar>x\<bar> < 54"
    by (rule binary_exponent_range(2) [OF xpos xlo xhi])
  then show e_hi: "binary_exponent \<bar>x\<bar> \<le> 53"
    by simp
  have xnz: "x \<noteq> 0" using xpos by simp
  note nd = nearest_double_nearest [OF xnz, folded e_def]
  define n where "n = round_half_even (\<bar>x\<bar> / 2 powi (e - 52))"
  have mag: "\<bar>nearest_double x\<bar> = of_int n * 2 powi (e - 52)"
    and n52: "2 ^ 52 \<le> n" and n53: "n \<le> 2 ^ 53"
    using nd(1,2,3) by (simp_all add: n_def)
  have nr: "(2 :: rat) ^ 52 \<le> of_int n" "(of_int n :: rat) \<le> 2 ^ 53"
  proof -
    have "(of_int (2 ^ 52) :: rat) \<le> of_int n" using n52 by (simp only: of_int_le_iff)
    then show "(2 :: rat) ^ 52 \<le> of_int n" by simp
    have "(of_int n :: rat) \<le> of_int (2 ^ 53)" using n53 by (simp only: of_int_le_iff)
    then show "(of_int n :: rat) \<le> 2 ^ 53" by simp
  qed
  have Qpos: "(0 :: rat) < 2 powi (e - 52)" by simp
  have p52: "(2 :: rat) ^ 52 * 2 powi (e - 52) = 2 powi e"
    using power_int_add [of "2 :: rat" 52 "e - 52"] by simp
  have p53: "(2 :: rat) ^ 53 * 2 powi (e - 52) = 2 powi (e + 1)"
    using power_int_add [of "2 :: rat" 53 "e - 52"] by (simp add: add.commute)
  have mlo: "2 powi e \<le> \<bar>nearest_double x\<bar>"
    unfolding mag p52 [symmetric] using nr(1) Qpos by (intro mult_right_mono) simp_all
  have mhi: "\<bar>nearest_double x\<bar> \<le> 2 powi (e + 1)"
    unfolding mag p53 [symmetric] using nr(2) Qpos by (intro mult_right_mono) simp_all
  have elo: "(2 :: rat) powi (- 53) \<le> 2 powi e"
    using e_lo by (intro power_int_increasing) (simp_all add: e_def)
  have ehi: "(2 :: rat) powi (e + 1) \<le> 2 powi 54"
    using e_hi by (intro power_int_increasing) (simp_all add: e_def)
  define y where "y = \<bar>nearest_double x * 100\<bar>"
  have y: "y = \<bar>nearest_double x\<bar> * 100"
    by (simp add: y_def abs_mult)
  have ylo: "2 powi (- 53) \<le> y"
  proof -
    have "(2 :: rat) powi (- 53) \<le> \<bar>nearest_double x\<bar>"
      using elo mlo by linarith
    also have "\<dots> \<le> \<bar>nearest_double x\<bar> * 100"
      by simp
    finally show ?thesis by (simp only: y)
  qed
  have ypos: "0 < y"
  proof -
    have "(0 :: rat) < 2 powi (- 53)" by simp
    then show ?thesis using ylo by linarith
  qed
  have yhi: "y < 2 powi 61"
  proof -
    have "\<bar>nearest_double x\<bar> \<le> 2 powi 54"
      using ehi mhi by linarith
    then have "\<bar>nearest_double x\<bar> * 100 \<le> 2 powi 54 * 100"
      by (intro mult_right_mono) simp_all
    also have "\<dots> < (2 :: rat) powi 61"
      by simp
    finally show ?thesis by (simp only: y)
  qed
  show "- 53 \<le> binary_exponent \<bar>nearest_double x * 100\<bar>"
    using binary_exponent_range(1) [OF ypos ylo yhi] by (simp only: y_def)
  have "binary_exponent y < 61"
    by (rule binary_exponent_range(2) [OF ypos ylo yhi])
  then show "binary_exponent \<bar>nearest_double x * 100\<bar> \<le> 60"
    by (simp add: y_def)
qed

subsection \<open>Totals of a usage snapshot\<close>

lemma add_quota_fields [simp]:
  "totalUsed (add_quota q t) = totalUsed t + or_zero (currentUsage q)"
  "totalLimit (add_quota q t) = totalLimit t + or_zero (usageLimit q)"
  "hasActiveQuota (add_quota q t) =
     (hasActiveQuota t \<or> (0 < or_zero (usageLimit q) \<and> or_zero (currentUsage q) < or_zero (usageLimit q)))"
  by (simp_all add: add_quota_def Let_def)

lemma totals_plus_Nil [simp]: "totals_plus t [] = t"
  by (simp add: totals_plus_def)








subsection \<open>Loading and saving a document\<close>

lemma update_fresh:
  "k \<notin> fst ` set al \<Longrightarrow> AList.update k v al = al @ [(k, v)]"
  by (induction al) auto

lemma fold_init_family:
  assumes "distinct (map fst doc)" and "fst ` set doc \<inter> fst ` set (providerStatus m) = {}"
  shows "providerStatus (fold init_family doc m) =
           providerStatus m @ map (\<lambda>kv. (fst kv, map init_provider (snd kv))) doc"
  using assms
proof (induction doc arbitrary: m)
  case Nil
  then show ?case by simp
next
  case (Cons kv doc)
  have fresh: "fst kv \<notin> fst ` set (providerStatus m)"
    using Cons.prems(2) by auto
  have ps: "providerStatus (init_family kv m) =
      providerStatus m @ [(fst kv, map init_provider (snd kv))]"
    by (simp add: init_family_def update_fresh [OF fresh])
  have "fst ` set doc \<inter> fst ` set (providerStatus (init_family kv m)) = {}"
    using Cons.prems by (auto simp: ps)
  moreover have "distinct (map fst doc)"
    using Cons.prems(1) by simp
  ultimately show ?case
    using Cons.IH [of "init_family kv m"] by (simp add: ps)
qed

lemma new_manager_providerStatus:
  assumes "distinct (map fst doc)"
  shows "providerStatus (new_manager doc opts) =
           map (\<lambda>kv. (fst kv, map init_provider (snd kv))) doc"
  using fold_init_family [OF assms, of "\<lparr> providerStatus = [], roundRobinIndex = [],
      maxErrorCount = (case opt_maxErrorCount opts of None \<Rightarrow> 3 | Some n \<Rightarrow> n),
      healthCheckInterval =
        (case opt_healthCheckInterval opts of None \<Rightarrow> 10 * 60 * 1000 | Some n \<Rightarrow> n),
      saveTimer = False, pendingSaves = [] \<rparr>"]
  by (simp add: new_manager_def initializeProviderStatus_def)

lemma map_of_loaded:
  "map_of (map (\<lambda>kv. (fst kv, map init_provider (snd kv))) doc) t =
     map_option (map init_provider) (map_of doc t)"
  by (induction doc) auto

lemma update_saved:
  assumes "distinct (map fst doc)" and "map_of doc t = Some cs"
  shows "AList.update t (map (\<lambda>c. stringify_config (init_config c)) cs) (saved_document T doc) =
           saved_document (insert t T) doc"
  using assms
proof (induction doc)
  case Nil
  then show ?case by simp
next
  case (Cons kv doc)
  show ?case
  proof (cases "fst kv = t")
    case True
    then have cs: "snd kv = cs" using Cons.prems(2) by (cases kv) simp
    have "t \<notin> fst ` set doc" using Cons.prems(1) True by auto
    then have "saved_document (insert t T) doc = saved_document T doc"
      by (auto simp: saved_document_def)
    then show ?thesis
      using True cs by (simp add: saved_document_def)
  next
    case False
    then have "map_of doc t = Some cs" using Cons.prems(2) by (cases kv) simp
    then have "AList.update t (map (\<lambda>c. stringify_config (init_config c)) cs) (saved_document T doc) =
        saved_document (insert t T) doc"
      using Cons.IH Cons.prems(1) by simp
    then show ?thesis
      using False by (simp add: saved_document_def)
  qed
qed

lemma saved_absent:
  "map_of doc t = None \<Longrightarrow> saved_document (insert t T) doc = saved_document T doc"
  by (auto simp: saved_document_def map_of_eq_None_iff)

lemma save_family_loaded:
  assumes "distinct (map fst doc)"
    and "providerStatus m = map (\<lambda>kv. (fst kv, map init_provider (snd kv))) doc"
  shows "save_family m t (saved_document T doc) = saved_document (insert t T) doc"
proof (cases "map_of doc t")
  case None
  then show ?thesis
    by (simp add: save_family_def assms(2) map_of_loaded saved_absent)
next
  case (Some cs)
  have "map (\<lambda>p. stringify_config (config p)) (map init_provider cs) =
      map (\<lambda>c. stringify_config (init_config c)) cs"
    by (simp add: init_provider_def)
  then have "save_family m t (saved_document T doc) =
      AList.update t (map (\<lambda>c. stringify_config (init_config c)) cs) (saved_document T doc)"
    using Some by (simp only: save_family_def assms(2) map_of_loaded option.map option.case)
  then show ?thesis
    by (simp only: update_saved [OF assms(1) Some])
qed

lemma fold_save_family_loaded:
  assumes "distinct (map fst doc)"
    and "providerStatus m = map (\<lambda>kv. (fst kv, map init_provider (snd kv))) doc"
  shows "fold (save_family m) types (saved_document T doc) = saved_document (T \<union> set types) doc"
proof (induction types arbitrary: T)
  case Nil
  then show ?case by simp
next
  case (Cons t types)
  then show ?case
    by (simp add: save_family_loaded [OF assms])
qed

lemma saved_document_empty [simp]: "saved_document {} doc = doc"
  by (simp add: saved_document_def)

lemma saved_document_fixed:
  assumes "\<forall>kv \<in> set doc. fst kv \<in> T \<longrightarrow> (\<forall>c \<in> set (snd kv). stringify_config (init_config c) = c)"
  shows "saved_document T doc = doc"
  using assms by (induction doc) (auto simp: saved_document_def map_idI)

section \<open>The properties of the specification\<close>

subsection \<open>Persistence\<close>

text \<open>
  C1 (as amended). When the flush has something pending and reading the pool file fails
  with an error other than file-not-found (or the file does not parse), the flush writes
  nothing; the pending set was emptied and the timer cleared before the read, and they
  stay so: a timer firing later, or a flush called later, writes nothing whatever the
  file then holds, and a save scheduled later for a family \<open>t\<close> has only \<open>t\<close> pending.
  A missing file is read as the empty document, and the flush then writes.
\<close>

theorem flush_after_read_error:
  assumes "pendingSaves m \<noteq> []" and "read_failed disk"
  shows "written (flushPendingSaves m disk) = None
       \<and> manager_flushed (flushPendingSaves m disk) = m \<lparr> pendingSaves := [], saveTimer := False \<rparr>
       \<and> written (timer_fires (manager_flushed (flushPendingSaves m disk)) later) = None
       \<and> written (flushPendingSaves (manager_flushed (flushPendingSaves m disk)) later) = None
       \<and> pendingSaves (debouncedSave t (manager_flushed (flushPendingSaves m disk))) = [t]
       \<and> flushPendingSaves m (ReadFails (Val ''ENOENT'')) = flushPendingSaves m (Parsed [])
       \<and> written (flushPendingSaves m (ReadFails (Val ''ENOENT''))) \<noteq> None"
  using assms
  by (cases disk)
    (simp_all add: read_failed_def flushPendingSaves_def timer_fires_def debouncedSave_def Let_def)

theorem flush_after_read_error_witness:
  "pendingSaves dirty_manager \<noteq> []
   \<and> read_failed (ReadFails (Val ''EACCES''))
   \<and> (written (flushPendingSaves dirty_manager (ReadFails (Val ''EACCES''))) = None
      \<and> manager_flushed (flushPendingSaves dirty_manager (ReadFails (Val ''EACCES''))) =
          dirty_manager \<lparr> pendingSaves := [], saveTimer := False \<rparr>
      \<and> written (timer_fires
                   (manager_flushed (flushPendingSaves dirty_manager (ReadFails (Val ''EACCES''))))
                   (Parsed example_document)) = None
      \<and> written (flushPendingSaves
                   (manager_flushed (flushPendingSaves dirty_manager (ReadFails (Val ''EACCES''))))
                   (Parsed example_document)) = None
      \<and> pendingSaves (debouncedSave ''claude-custom''
                        (manager_flushed
                           (flushPendingSaves dirty_manager (ReadFails (Val ''EACCES''))))) =
          [''claude-custom'']
      \<and> flushPendingSaves dirty_manager (ReadFails (Val ''ENOENT'')) =
          flushPendingSaves dirty_manager (Parsed [])
      \<and> written (flushPendingSaves dirty_manager (ReadFails (Val ''ENOENT''))) \<noteq> None)"
proof -
  have ne: "pendingSaves dirty_manager \<noteq> []"
    by code_simp
  have failed: "read_failed (ReadFails (Val ''EACCES''))"
    by (simp add: read_failed_def)
  show ?thesis
    by (rule conjI [OF ne conjI [OF failed flush_after_read_error [OF ne failed]]])
qed

text \<open>
  The claim as stated fails: after one selection the family \<^verbatim>\<open>openai-custom\<close> is
  pending; a flush whose read fails with \<^verbatim>\<open>EACCES\<close> leaves nothing pending, and the
  timer firing afterwards, with no operation in between, writes nothing.
\<close>

theorem flush_drops_pending_counterexample:
  "pendingSaves dirty_manager = [''openai-custom'']
   \<and> pendingSaves (manager_flushed (flushPendingSaves dirty_manager (ReadFails (Val ''EACCES''))))
       \<noteq> pendingSaves dirty_manager
   \<and> written (timer_fires (manager_flushed (flushPendingSaves dirty_manager (ReadFails (Val ''EACCES''))))
                (Parsed example_document)) = None"
  by code_simp

text \<open>
  C5 (as amended). Loading a document (a JSON object: its family keys are distinct) and
  flushing a non-empty list of families with no operation in between writes the document
  in which each flushed family holds its entries as initialized and every other family
  is as loaded. Initialization changes only the ten managed properties: the keys kept in
  \<open>extras\<close> (\<^verbatim>\<open>_comment\<close>, \<^verbatim>\<open>_originalId\<close>, credentials) and the identifier, the
  probe settings and the unsupported models are written as loaded. The written document
  is the loaded one when every entry of the flushed families already carries the ten
  properties the way initialization leaves them.
\<close>

theorem reserialize_document:
  assumes "distinct (map fst doc)" and "types \<noteq> []"
  shows "reserialize doc opts types = Some (saved_document (set types) doc)
       \<and> extras (stringify_config (init_config c)) = extras c
       \<and> uuid (stringify_config (init_config c)) = uuid c
       \<and> checkModelName (stringify_config (init_config c)) = checkModelName c
       \<and> checkHealth (stringify_config (init_config c)) = checkHealth c
       \<and> notSupportedModels (stringify_config (init_config c)) = notSupportedModels c
       \<and> ((\<forall>kv \<in> set doc. fst kv \<in> set types \<longrightarrow>
              (\<forall>e \<in> set (snd kv). stringify_config (init_config e) = e))
            \<longrightarrow> reserialize doc opts types = Some doc)"
proof -
  let ?m = "(new_manager doc opts) \<lparr> pendingSaves := types, saveTimer := True \<rparr>"
  let ?m' = "?m \<lparr> pendingSaves := [], saveTimer := False \<rparr>"
  have ps: "providerStatus ?m' = map (\<lambda>kv. (fst kv, map init_provider (snd kv))) doc"
    by (simp add: new_manager_providerStatus [OF assms(1)])
  have "fold (save_family ?m') types (saved_document {} doc) = saved_document ({} \<union> set types) doc"
    by (rule fold_save_family_loaded [OF assms(1) ps])
  then have w: "reserialize doc opts types = Some (saved_document (set types) doc)"
    using assms(2) by (simp add: reserialize_def flushPendingSaves_def Let_def)
  show ?thesis
    using w by (auto simp: saved_document_fixed stringify_config_def init_config_def)
qed

theorem reserialize_document_witness:
  "distinct (map fst complete_document)
   \<and> [''claude-kiro-oauth''] \<noteq> []
   \<and> reserialize complete_document default_options [''claude-kiro-oauth'']
       = Some (saved_document (set [''claude-kiro-oauth'']) complete_document)
   \<and> extras (stringify_config (init_config commented_entry))
       = [(''_comment'', JStr ''imported''), (''_originalId'', JStr ''7'')]
   \<and> reserialize complete_document default_options [''claude-kiro-oauth''] = Some complete_document"
proof -
  have d: "distinct (map fst complete_document)"
    by code_simp
  have ne: "[''claude-kiro-oauth''] \<noteq> []"
    by simp
  have fixed: "\<forall>kv \<in> set complete_document. fst kv \<in> set [''claude-kiro-oauth''] \<longrightarrow>
      (\<forall>e \<in> set (snd kv). stringify_config (init_config e) = e)"
    by code_simp
  have ex: "extras commented_entry = [(''_comment'', JStr ''imported''), (''_originalId'', JStr ''7'')]"
    by code_simp
  note inst = reserialize_document [OF d ne, of default_options commented_entry]
  have written_doc: "reserialize complete_document default_options [''claude-kiro-oauth'']
       = Some (saved_document (set [''claude-kiro-oauth'']) complete_document)"
    using inst by (rule conjunct1)
  have kept: "extras (stringify_config (init_config commented_entry)) = extras commented_entry"
    using inst [THEN conjunct2] by (rule conjunct1)
  have same: "reserialize complete_document default_options [''claude-kiro-oauth''] =
      Some complete_document"
    using inst [THEN conjunct2, THEN conjunct2, THEN conjunct2, THEN conjunct2, THEN conjunct2,
        THEN conjunct2] fixed
    by (rule mp)
  show ?thesis
    using kept by (intro conjI d ne written_doc same) (simp only: ex)
qed

text \<open>
  The claim as stated fails: an entry that has only an identifier and comment keys is
  written back with the ten managed properties added (\<^verbatim>\<open>isHealthy\<close> as \<^verbatim>\<open>true\<close>, the
  counters as 0, the rest as \<^verbatim>\<open>null\<close>), so the document written is not the one loaded.
\<close>

theorem reserialize_adds_defaults_counterexample:
  "reserialize commented_document default_options [''claude-kiro-oauth'']
     = Some [(''claude-kiro-oauth'', [init_config commented_entry])]
   \<and> isHealthy commented_entry = Absent
   \<and> isHealthy (init_config commented_entry) = Val True
   \<and> reserialize commented_document default_options [''claude-kiro-oauth'']
       \<noteq> Some commented_document"
  by code_simp

subsection \<open>Invariant of the entries\<close>

text \<open>
  C2 (as amended). The property that every entry whose \<^verbatim>\<open>isHealthy\<close> is \<^verbatim>\<open>false\<close> has
  a \<^verbatim>\<open>lastErrorTime\<close> holds after initialization when it holds of the entries of the
  document loaded, and every operation after that (selection, markUnhealthy, markHealthy,
  resetCounters, disable, enable, the completion of a recovery probe, a sweep of health
  checks, a flush) keeps it.
\<close>

theorem error_time_of_unhealthy:
  "(document_has_error_times doc \<longrightarrow> unhealthy_have_error_time (new_manager doc opts))
   \<and> (unhealthy_have_error_time m \<longrightarrow> unhealthy_have_error_time (apply_operation m op))"
proof
  show "document_has_error_times doc \<longrightarrow> unhealthy_have_error_time (new_manager doc opts)"
  proof
    assume doc: "document_has_error_times doc"
    have "unhealthy_have_error_time
        \<lparr> providerStatus = [], roundRobinIndex = [],
          maxErrorCount = (case opt_maxErrorCount opts of None \<Rightarrow> 3 | Some n \<Rightarrow> n),
          healthCheckInterval =
            (case opt_healthCheckInterval opts of None \<Rightarrow> 10 * 60 * 1000 | Some n \<Rightarrow> n),
          saveTimer = False, pendingSaves = [] \<rparr>"
      by (simp add: unhealthy_have_error_time_def)
    with doc show "unhealthy_have_error_time (new_manager doc opts)"
      unfolding new_manager_def by (rule initializeProviderStatus_ok)
  qed
  show "unhealthy_have_error_time m \<longrightarrow> unhealthy_have_error_time (apply_operation m op)"
    by (cases op)
      (simp_all add: selectProvider_ok markProviderUnhealthy_ok markProviderHealthy_ok
        resetProviderCounters_ok disableProvider_ok enableProvider_ok tryRecoverProvider_ok
        performHealthChecks_ok timer_fires_ok)
qed

theorem error_time_of_unhealthy_witness:
  "document_has_error_times recovering_document
   \<and> unhealthy_have_error_time (new_manager recovering_document default_options)
   \<and> unhealthy_have_error_time
        (apply_operation (new_manager recovering_document default_options)
           (Select ''claude-custom'' None False 700000))"
proof -
  have doc: "document_has_error_times recovering_document"
    by code_simp
  note inst = error_time_of_unhealthy [of recovering_document default_options
      "new_manager recovering_document default_options"
      "Select ''claude-custom'' None False 700000"]
  have loaded: "unhealthy_have_error_time (new_manager recovering_document default_options)"
    using inst [THEN conjunct1] doc by (rule mp)
  have chosen: "unhealthy_have_error_time
        (apply_operation (new_manager recovering_document default_options)
           (Select ''claude-custom'' None False 700000))"
    using inst [THEN conjunct2] loaded by (rule mp)
  show ?thesis
    by (intro conjI doc loaded chosen)
qed

text \<open>
  The claim as stated fails at initialization: a document that gives an entry
  \<^verbatim>\<open>"isHealthy": false\<close> and no \<^verbatim>\<open>lastErrorTime\<close> is loaded as it is, with
  \<^verbatim>\<open>lastErrorTime\<close> set to \<^verbatim>\<open>null\<close>.
\<close>

theorem unhealthy_without_error_time_counterexample:
  "isHealthy (config (family (new_manager unlabelled_document default_options) ''claude-custom'' ! 0))
     = Val False
   \<and> lastErrorTime (config (family (new_manager unlabelled_document default_options) ''claude-custom'' ! 0))
     = Null
   \<and> \<not> unhealthy_have_error_time (new_manager unlabelled_document default_options)"
  by code_simp

subsection \<open>Selection\<close>

text \<open>
  C3 (as amended). In a family whose healthy, enabled entries are at the positions \<open>cs\<close>
  (\<open>n\<close> of them, at least one), successive selections with no requested model return,
  at step \<open>j\<close>, the entry \<open>cs ! ((index + j) mod n)\<close>, where \<open>index\<close> is the round-robin
  index stored for the family: the entries in the order of the list, starting from the
  one at position \<open>index mod n\<close>, which is the first when the stored index is 0, as it
  is in a fresh manager. Among \<open>k\<close> selections each of these entries is returned
  \<open>k div n\<close> times or the ceiling of \<open>k / n\<close> times, and the \<^verbatim>\<open>usageCount\<close> of every entry
  of the family has been incremented once for each time the entry was returned. For two
  entries A and B in a fresh manager, five selections return A, B, A, B, A and leave the
  counts 3 and 2.
\<close>

theorem round_robin_selections:
  assumes "providerType \<noteq> []" and "healthy_enabled m providerType = cs" and "cs \<noteq> []"
  shows "fst (select_many m providerType clock) =
           map (\<lambda>j. Some (cs ! ((currentIndex m providerType + j) mod length cs)))
             [0..<length clock]
         \<and> (currentIndex m providerType = 0 \<longrightarrow>
              fst (select_many m providerType clock) =
                map (\<lambda>j. Some (cs ! (j mod length cs))) [0..<length clock])
         \<and> (m = new_manager doc opts \<longrightarrow>
              fst (select_many m providerType clock) =
                map (\<lambda>j. Some (cs ! (j mod length cs))) [0..<length clock])
         \<and> (\<forall>c \<in> set cs.
              count_list (fst (select_many m providerType clock)) (Some c) =
                length clock div length cs
              \<or> count_list (fst (select_many m providerType clock)) (Some c) =
                  (length clock + length cs - 1) div length cs)
         \<and> (\<forall>i<length (family m providerType).
              usageCount (config (family (snd (select_many m providerType clock)) providerType ! i)) =
                (increment ^^ count_list (fst (select_many m providerType clock)) (Some i))
                  (usageCount (config (family m providerType ! i))))"
proof -
  note main = select_many_healthy [OF assms, of clock]
  have order: "fst (select_many m providerType clock) =
      map (\<lambda>j. Some (cs ! ((currentIndex m providerType + j) mod length cs))) [0..<length clock]"
    using main by (rule conjunct1)
  have fair: "count_list (fst (select_many m providerType clock)) (Some c) =
                length clock div length cs
              \<or> count_list (fst (select_many m providerType clock)) (Some c) =
                  (length clock + length cs - 1) div length cs" if c: "c \<in> set cs" for c
  proof -
    obtain p where p: "p < length cs" "c = cs ! p"
      using c by (metis in_set_conv_nth)
    have d: "distinct cs"
      using assms(2) distinct_healthy_enabled [of m providerType] by simp
    have "count_list (map (\<lambda>j. Some (cs ! ((currentIndex m providerType + j) mod length cs)))
                       [0..<length clock]) (Some (cs ! p)) =
        length (filter (\<lambda>j. (currentIndex m providerType + j) mod length cs = p) [0..<length clock])"
    proof (rule count_list_map_nth [OF d p(1),
          where g = "\<lambda>j. (currentIndex m providerType + j) mod length cs"])
      show "\<And>j. (currentIndex m providerType + j) mod length cs < length cs"
        using assms(3) by simp
    qed
    then have "count_list (fst (select_many m providerType clock)) (Some c) =
        length (filter (\<lambda>j. (currentIndex m providerType + j) mod length cs = p) [0..<length clock])"
      by (simp only: order p(2))
    then show ?thesis
      by (simp only: hits_between [OF p(1)])
  qed
  have start: "currentIndex m providerType = 0 \<longrightarrow>
      fst (select_many m providerType clock) =
        map (\<lambda>j. Some (cs ! (j mod length cs))) [0..<length clock]"
  proof
    assume "currentIndex m providerType = 0"
    then show "fst (select_many m providerType clock) =
        map (\<lambda>j. Some (cs ! (j mod length cs))) [0..<length clock]"
      by (simp only: order add_0)
  qed
  have fresh: "m = new_manager doc opts \<longrightarrow>
      fst (select_many m providerType clock) =
        map (\<lambda>j. Some (cs ! (j mod length cs))) [0..<length clock]"
  proof
    assume "m = new_manager doc opts"
    then have "currentIndex m providerType = 0"
      by (simp only: currentIndex_new_manager)
    with start show "fst (select_many m providerType clock) =
        map (\<lambda>j. Some (cs ! (j mod length cs))) [0..<length clock]"
      by (rule mp)
  qed
  have usage: "\<forall>i<length (family m providerType).
      usageCount (config (family (snd (select_many m providerType clock)) providerType ! i)) =
        (increment ^^ count_list (fst (select_many m providerType clock)) (Some i))
          (usageCount (config (family m providerType ! i)))"
    using main by (rule conjunct2 [THEN conjunct2])
  have fair_all: "\<forall>c \<in> set cs.
      count_list (fst (select_many m providerType clock)) (Some c) =
        length clock div length cs
      \<or> count_list (fst (select_many m providerType clock)) (Some c) =
          (length clock + length cs - 1) div length cs"
  proof
    fix c assume "c \<in> set cs"
    then show "count_list (fst (select_many m providerType clock)) (Some c) =
        length clock div length cs
      \<or> count_list (fst (select_many m providerType clock)) (Some c) =
          (length clock + length cs - 1) div length cs"
      by (rule fair)
  qed
  show ?thesis
    by (intro conjI) (rule order, rule start, rule fresh, rule fair_all, rule usage)
qed

theorem round_robin_selections_witness:
  "''openai-custom'' \<noteq> []
   \<and> healthy_enabled example_manager ''openai-custom'' = [0, 1]
   \<and> [0, 1 :: nat] \<noteq> []
   \<and> currentIndex example_manager ''openai-custom'' = 0
   \<and> example_manager = new_manager example_document default_options
   \<and> fst (select_many example_manager ''openai-custom'' [1, 2, 3, 4, 5])
       = [Some 0, Some 1, Some 0, Some 1, Some 0]
   \<and> count_list (fst (select_many example_manager ''openai-custom'' [1, 2, 3, 4, 5])) (Some 0) = 3
   \<and> count_list (fst (select_many example_manager ''openai-custom'' [1, 2, 3, 4, 5])) (Some 1) = 2
   \<and> map (\<lambda>p. usageCount (config p))
        (family (snd (select_many example_manager ''openai-custom'' [1, 2, 3, 4, 5])) ''openai-custom'')
       = [Val (Num 3), Val (Num 2)]"
proof -
  have t: "''openai-custom'' \<noteq> []"
    by simp
  have h: "healthy_enabled example_manager ''openai-custom'' = [0, 1]"
    by code_simp
  have ne: "[0, 1 :: nat] \<noteq> []"
    by simp
  have z: "currentIndex example_manager ''openai-custom'' = 0"
    by code_simp
  have u: "map (\<lambda>p. usageCount (config p))
        (family (snd (select_many example_manager ''openai-custom'' [1, 2, 3, 4, 5])) ''openai-custom'')
       = [Val (Num 3), Val (Num 2)]"
    by code_simp
  note inst = round_robin_selections [OF t h ne, of "[1, 2, 3, 4, 5]" example_document
      default_options]
  have "fst (select_many example_manager ''openai-custom'' [1, 2, 3, 4, 5]) =
      map (\<lambda>j. Some ([0, 1] ! (j mod length [0, 1 :: nat]))) [0..<length [1, 2, 3, 4, 5 :: int]]"
    using inst [THEN conjunct2, THEN conjunct2, THEN conjunct1] example_manager_def by (rule mp)
  also have "\<dots> = [Some 0, Some 1, Some 0, Some 1, Some 0]"
    by code_simp
  finally have order: "fst (select_many example_manager ''openai-custom'' [1, 2, 3, 4, 5])
       = [Some 0, Some 1, Some 0, Some 1, Some 0]" .
  have c0: "count_list (fst (select_many example_manager ''openai-custom'' [1, 2, 3, 4, 5])) (Some 0) = 3"
    unfolding order by code_simp
  have c1: "count_list (fst (select_many example_manager ''openai-custom'' [1, 2, 3, 4, 5])) (Some 1) = 2"
    unfolding order by code_simp
  show ?thesis
    by (intro conjI t h ne z example_manager_def order c0 c1 u)
qed

text \<open>
  The claim as stated fails on the starting entry: the index advanced by one selection
  stays stored, so in the manager that has made one selection over the healthy entries
  A and B, the next five selections return B, A, B, A, B. The counts are still 3 and 2.
\<close>

theorem selections_start_at_stored_index_counterexample:
  "healthy_enabled dirty_manager ''openai-custom'' = [0, 1]
   \<and> currentIndex dirty_manager ''openai-custom'' = 1
   \<and> fst (select_many dirty_manager ''openai-custom'' [1, 2, 3, 4, 5])
       = [Some 1, Some 0, Some 1, Some 0, Some 1]
   \<and> fst (select_many dirty_manager ''openai-custom'' [1, 2, 3, 4, 5])
       \<noteq> [Some 0, Some 1, Some 0, Some 1, Some 0]"
  by code_simp

text \<open>
  C10. Whenever the candidate list of a selection is not empty, whatever index is stored
  for its key, the selection returns the entry at position \<open>index mod length\<close> of that
  list, which is an entry of the family, and the index stored back is smaller than the
  length of the list.
\<close>

theorem selection_within_bounds:
  assumes "providerType \<noteq> []"
    and "selection_candidates m providerType requestedModel now \<noteq> []"
  shows "let cands = selection_candidates m providerType requestedModel now;
             key = indexKey providerType (case requestedModel of None \<Rightarrow> [] | Some r \<Rightarrow> r);
             r = selectProvider m providerType requestedModel skipUsageCount now
         in (case selected r of
               None \<Rightarrow> False
             | Some (i, c) \<Rightarrow>
                 i = cands ! (currentIndex m key mod length cands) \<and> i \<in> set cands
                 \<and> i < length (family m providerType)
                 \<and> c = config (family (manager_after r) providerType ! i))
            \<and> currentIndex m key mod length cands < length cands
            \<and> currentIndex (manager_after r) key < length cands"
proof -
  note f2 = selectProvider_some(2) [OF assms]
  note f3 = selectProvider_some(3) [OF assms]
  note f4 = selectProvider_some(4) [OF assms, where skip = skipUsageCount]
  note f6 = selectProvider_some(6) [OF assms, where skip = skipUsageCount]
  show ?thesis
    using f2 f3 f4 f6 assms(2)
    by (simp add: Let_def currentIndex_def update_conv')
qed

theorem selection_within_bounds_witness:
  "''openai-custom'' \<noteq> []
   \<and> selection_candidates stale_manager ''openai-custom'' None 9000 \<noteq> []
   \<and> (let cands = selection_candidates stale_manager ''openai-custom'' None 9000;
          key = indexKey ''openai-custom'' (case None of None \<Rightarrow> [] | Some r \<Rightarrow> r);
          r = selectProvider stale_manager ''openai-custom'' None False 9000
      in (case selected r of
            None \<Rightarrow> False
          | Some (i, c) \<Rightarrow>
              i = cands ! (currentIndex stale_manager key mod length cands) \<and> i \<in> set cands
              \<and> i < length (family stale_manager ''openai-custom'')
              \<and> c = config (family (manager_after r) ''openai-custom'' ! i))
         \<and> currentIndex stale_manager key mod length cands < length cands
         \<and> currentIndex (manager_after r) key < length cands)
   \<and> currentIndex stale_manager ''openai-custom'' = 7
   \<and> selection_candidates stale_manager ''openai-custom'' None 9000 = [0, 1]
   \<and> map_option fst (selected (selectProvider stale_manager ''openai-custom'' None False 9000)) = Some 1
   \<and> currentIndex (manager_after (selectProvider stale_manager ''openai-custom'' None False 9000))
        ''openai-custom'' = 0"
proof -
  have t: "''openai-custom'' \<noteq> []"
    by simp
  have ne: "selection_candidates stale_manager ''openai-custom'' None 9000 \<noteq> []"
    by code_simp
  have seven: "currentIndex stale_manager ''openai-custom'' = 7"
    by code_simp
  have cands: "selection_candidates stale_manager ''openai-custom'' None 9000 = [0, 1]"
    by code_simp
  have sel: "map_option fst (selected (selectProvider stale_manager ''openai-custom'' None False 9000))
      = Some 1"
    by code_simp
  have stored: "currentIndex (manager_after (selectProvider stale_manager ''openai-custom'' None False 9000))
        ''openai-custom'' = 0"
    by code_simp
  show ?thesis
    by (intro conjI t ne seven cands sel stored
        selection_within_bounds [OF t ne, where skipUsageCount = False])
qed

subsection \<open>Reports and operator actions\<close>

text \<open>
  C7. For an entry that the lookup by \<^verbatim>\<open>uuid\<close> finds in its family, after
  \<^verbatim>\<open>markProviderHealthy\<close> with \<^verbatim>\<open>resetUsageCount\<close> true the entry has \<^verbatim>\<open>isHealthy\<close>
  true, \<^verbatim>\<open>errorCount\<close> 0, \<^verbatim>\<open>lastErrorTime\<close> and \<^verbatim>\<open>lastErrorMessage\<close> null,
  \<^verbatim>\<open>usageCount\<close> 0 and \<^verbatim>\<open>lastHealthCheckTime\<close> the current time; with
  \<^verbatim>\<open>resetUsageCount\<close> false, \<^verbatim>\<open>usageCount\<close> is incremented instead and \<^verbatim>\<open>lastUsed\<close> is
  the current time.
\<close>

theorem markProviderHealthy_fields:
  assumes "findProvider m providerType (uuid providerConfig) = Some i"
  shows "let before = config (family m providerType ! i);
             reset = config (family (markProviderHealthy m providerType providerConfig True
                                       model now) providerType ! i);
             kept = config (family (markProviderHealthy m providerType providerConfig False
                                      model now) providerType ! i)
         in isHealthy reset = Val True \<and> errorCount reset = Val (Num 0)
            \<and> lastErrorTime reset = Null \<and> lastErrorMessage reset = Null
            \<and> usageCount reset = Val (Num 0) \<and> lastHealthCheckTime reset = Val now
            \<and> lastUsed reset = lastUsed before
            \<and> isHealthy kept = Val True \<and> errorCount kept = Val (Num 0)
            \<and> lastErrorTime kept = Null \<and> lastErrorMessage kept = Null
            \<and> lastHealthCheckTime kept = Val now
            \<and> usageCount kept = increment (usageCount before) \<and> lastUsed kept = Val now"
proof -
  have len: "i < length (family m providerType)"
    using assms by (rule findProvider_Some)
  have u: "truthy_str (uuid providerConfig)"
    using assms by (rule findProvider_Some)
  show ?thesis
    using assms u
    by (simp add: markProviderHealthy_def config_family_set_config [OF len] healthy_update_def
        Let_def)
qed

theorem markProviderHealthy_fields_witness:
  "findProvider dirty_manager ''openai-custom'' (uuid (blank_config ''A'')) = Some 0
   \<and> (let before = config (family dirty_manager ''openai-custom'' ! 0);
          reset = config (family (markProviderHealthy dirty_manager ''openai-custom''
                                    (blank_config ''A'') True (Val ''gpt-3.5-turbo'') 5000)
                            ''openai-custom'' ! 0);
          kept = config (family (markProviderHealthy dirty_manager ''openai-custom''
                                   (blank_config ''A'') False (Val ''gpt-3.5-turbo'') 5000)
                           ''openai-custom'' ! 0)
      in isHealthy reset = Val True \<and> errorCount reset = Val (Num 0)
         \<and> lastErrorTime reset = Null \<and> lastErrorMessage reset = Null
         \<and> usageCount reset = Val (Num 0) \<and> lastHealthCheckTime reset = Val 5000
         \<and> lastUsed reset = lastUsed before
         \<and> isHealthy kept = Val True \<and> errorCount kept = Val (Num 0)
         \<and> lastErrorTime kept = Null \<and> lastErrorMessage kept = Null
         \<and> lastHealthCheckTime kept = Val 5000
         \<and> usageCount kept = increment (usageCount before) \<and> lastUsed kept = Val 5000)
   \<and> usageCount (config (family dirty_manager ''openai-custom'' ! 0)) = Val (Num 1)
   \<and> usageCount (config (family (markProviderHealthy dirty_manager ''openai-custom''
                                   (blank_config ''A'') False (Val ''gpt-3.5-turbo'') 5000)
                           ''openai-custom'' ! 0)) = Val (Num 2)"
proof -
  have found: "findProvider dirty_manager ''openai-custom'' (uuid (blank_config ''A'')) = Some 0"
    by code_simp
  have one: "usageCount (config (family dirty_manager ''openai-custom'' ! 0)) = Val (Num 1)"
    by code_simp
  have two: "usageCount (config (family (markProviderHealthy dirty_manager ''openai-custom''
                                   (blank_config ''A'') False (Val ''gpt-3.5-turbo'') 5000)
                           ''openai-custom'' ! 0)) = Val (Num 2)"
    by code_simp
  show ?thesis
    by (intro conjI found one two
        markProviderHealthy_fields [OF found, where model = "Val ''gpt-3.5-turbo''" and now = 5000])
qed

text \<open>
  C9. For an entry that the lookup by \<^verbatim>\<open>uuid\<close> finds in its family,
  \<^verbatim>\<open>resetProviderCounters\<close> sets \<^verbatim>\<open>errorCount\<close> and \<^verbatim>\<open>usageCount\<close> to 0 and changes
  nothing else: the entry keeps \<^verbatim>\<open>isHealthy\<close>, \<^verbatim>\<open>isDisabled\<close>, \<^verbatim>\<open>lastErrorTime\<close>,
  \<^verbatim>\<open>lastErrorMessage\<close>, \<^verbatim>\<open>lastUsed\<close>, \<^verbatim>\<open>lastHealthCheckTime\<close>,
  \<^verbatim>\<open>lastHealthCheckModel\<close> and \<^verbatim>\<open>usageInfo\<close>, the other entries of the family, the
  other families and the round-robin indices are as before.
\<close>

theorem resetProviderCounters_frame:
  assumes "findProvider m providerType (uuid providerConfig) = Some i"
    and "other \<noteq> providerType"
  shows "let m' = resetProviderCounters m providerType providerConfig;
             before = config (family m providerType ! i);
             after = config (family m' providerType ! i)
         in after = before \<lparr> errorCount := Val (Num 0), usageCount := Val (Num 0) \<rparr>
            \<and> errorCount after = Val (Num 0) \<and> usageCount after = Val (Num 0)
            \<and> isHealthy after = isHealthy before \<and> isDisabled after = isDisabled before
            \<and> lastErrorTime after = lastErrorTime before
            \<and> lastErrorMessage after = lastErrorMessage before
            \<and> lastUsed after = lastUsed before
            \<and> lastHealthCheckTime after = lastHealthCheckTime before
            \<and> lastHealthCheckModel after = lastHealthCheckModel before
            \<and> usageInfo after = usageInfo before
            \<and> family m' providerType =
                (family m providerType)[i := (family m providerType ! i) \<lparr> config := after \<rparr>]
            \<and> family m' other = family m other
            \<and> roundRobinIndex m' = roundRobinIndex m"
proof -
  have u: "truthy_str (uuid providerConfig)"
    using assms(1) by (rule findProvider_Some)
  have len: "i < length (family m providerType)"
    using assms(1) by (rule findProvider_Some)
  have eq: "resetProviderCounters m providerType providerConfig =
      debouncedSave providerType
        (set_config providerType i
           (\<lambda>c. c \<lparr> errorCount := Val (Num 0), usageCount := Val (Num 0) \<rparr>) m)"
    using assms(1) u by (simp add: resetProviderCounters_def)
  show ?thesis
    unfolding eq Let_def
    using len assms(2)
    by (simp add: family_set_config_same family_set_config_other)
qed

theorem resetProviderCounters_frame_witness:
  "findProvider recovering_manager ''claude-custom'' (uuid failed_entry) = Some 0
   \<and> ''openai-custom'' \<noteq> ''claude-custom''
   \<and> (let m' = resetProviderCounters recovering_manager ''claude-custom'' failed_entry;
          before = config (family recovering_manager ''claude-custom'' ! 0);
          after = config (family m' ''claude-custom'' ! 0)
      in after = before \<lparr> errorCount := Val (Num 0), usageCount := Val (Num 0) \<rparr>
         \<and> errorCount after = Val (Num 0) \<and> usageCount after = Val (Num 0)
         \<and> isHealthy after = isHealthy before \<and> isDisabled after = isDisabled before
         \<and> lastErrorTime after = lastErrorTime before
         \<and> lastErrorMessage after = lastErrorMessage before
         \<and> lastUsed after = lastUsed before
         \<and> lastHealthCheckTime after = lastHealthCheckTime before
         \<and> lastHealthCheckModel after = lastHealthCheckModel before
         \<and> usageInfo after = usageInfo before
         \<and> family m' ''claude-custom'' =
             (family recovering_manager ''claude-custom'')
               [0 := (family recovering_manager ''claude-custom'' ! 0) \<lparr> config := after \<rparr>]
         \<and> family m' ''openai-custom'' = family recovering_manager ''openai-custom''
         \<and> roundRobinIndex m' = roundRobinIndex recovering_manager)
   \<and> isHealthy (config (family (resetProviderCounters recovering_manager ''claude-custom''
                                  failed_entry) ''claude-custom'' ! 0)) = Val False
   \<and> lastErrorMessage (config (family (resetProviderCounters recovering_manager ''claude-custom''
                                         failed_entry) ''claude-custom'' ! 0)) = Val ''timeout''"
proof -
  have found: "findProvider recovering_manager ''claude-custom'' (uuid failed_entry) = Some 0"
    by code_simp
  have other: "''openai-custom'' \<noteq> ''claude-custom''"
    by simp
  have unhealthy: "isHealthy (config (family (resetProviderCounters recovering_manager
      ''claude-custom'' failed_entry) ''claude-custom'' ! 0)) = Val False"
    by code_simp
  have message: "lastErrorMessage (config (family (resetProviderCounters recovering_manager
      ''claude-custom'' failed_entry) ''claude-custom'' ! 0)) = Val ''timeout''"
    by code_simp
  show ?thesis
    by (intro conjI found other unhealthy message resetProviderCounters_frame [OF found other])
qed

subsection \<open>Health probes\<close>




text \<open>
  C6 (as amended). For the family \<^verbatim>\<open>claude-kiro-oauth\<close> the model of the probe is the
  entry's \<^verbatim>\<open>checkModelName\<close> when that is a non-empty string and \<^verbatim>\<open>claude-haiku-4-5\<close>
  otherwise; the chat-send probe has the two payloads of the specification, in that
  order. If the first call returns, the result is the success with this model and only
  that call was made; if it throws and the second returns, the result is the same
  success after both calls; if both throw, the result is a failure whose message is the
  message of the last error when that is a non-empty string, and
  \<^verbatim>\<open>All health check attempts failed\<close> when the last error has no message or an empty one.
\<close>

theorem kiro_chat_probe:
  assumes "check_model_name ''claude-kiro-oauth'' providerConfig = Val model"
  shows "check_model_name ''claude-kiro-oauth'' providerConfig =
           (if truthy_str (checkModelName providerConfig) then checkModelName providerConfig
            else Val ''claude-haiku-4-5'')
       \<and> buildHealthCheckRequests ''claude-kiro-oauth'' model =
           [kiro_messages_request model, kiro_contents_request]
       \<and> traditional_check a ''claude-kiro-oauth'' providerConfig =
           (case generateContent a model (kiro_messages_request model) of
              None \<Rightarrow>
                (probe_success model, [CallGenerateContent model (kiro_messages_request model)])
            | Some first_error \<Rightarrow>
                (case generateContent a model kiro_contents_request of
                   None \<Rightarrow> probe_success model
                 | Some last_error \<Rightarrow>
                     probe_failure model
                       (case last_error of
                          Val msg \<Rightarrow> if msg \<noteq> [] then msg else ''All health check attempts failed''
                        | Null \<Rightarrow> ''All health check attempts failed''
                        | Absent \<Rightarrow> ''All health check attempts failed''),
                 [CallGenerateContent model (kiro_messages_request model),
                  CallGenerateContent model kiro_contents_request]))"
proof -
  have ne: "model \<noteq> []"
    using assms by (auto simp: kiro_model_name split: if_splits)
  have tc: "traditional_check a ''claude-kiro-oauth'' providerConfig =
      tryRequests a model [kiro_messages_request model, kiro_contents_request] None"
    using assms ne by (simp add: traditional_check_def kiro_requests)
  show ?thesis
    unfolding tc
    by (auto simp: kiro_model_name kiro_requests probe_success_def probe_failure_def
        split: option.splits field.splits)
qed

theorem kiro_chat_probe_witness:
  "check_model_name ''claude-kiro-oauth'' checked_entry = Val ''claude-haiku-4-5''
   \<and> (check_model_name ''claude-kiro-oauth'' checked_entry =
        (if truthy_str (checkModelName checked_entry) then checkModelName checked_entry
         else Val ''claude-haiku-4-5'')
      \<and> buildHealthCheckRequests ''claude-kiro-oauth'' ''claude-haiku-4-5'' =
          [kiro_messages_request ''claude-haiku-4-5'', kiro_contents_request]
      \<and> traditional_check fallback_adapter ''claude-kiro-oauth'' checked_entry =
          (case generateContent fallback_adapter ''claude-haiku-4-5''
                  (kiro_messages_request ''claude-haiku-4-5'') of
             None \<Rightarrow>
               (probe_success ''claude-haiku-4-5'',
                [CallGenerateContent ''claude-haiku-4-5'' (kiro_messages_request ''claude-haiku-4-5'')])
           | Some first_error \<Rightarrow>
               (case generateContent fallback_adapter ''claude-haiku-4-5'' kiro_contents_request of
                  None \<Rightarrow> probe_success ''claude-haiku-4-5''
                | Some last_error \<Rightarrow>
                    probe_failure ''claude-haiku-4-5''
                      (case last_error of
                         Val msg \<Rightarrow> if msg \<noteq> [] then msg else ''All health check attempts failed''
                       | Null \<Rightarrow> ''All health check attempts failed''
                       | Absent \<Rightarrow> ''All health check attempts failed''),
                [CallGenerateContent ''claude-haiku-4-5'' (kiro_messages_request ''claude-haiku-4-5''),
                 CallGenerateContent ''claude-haiku-4-5'' kiro_contents_request])))
   \<and> traditional_check fallback_adapter ''claude-kiro-oauth'' checked_entry =
       (probe_success ''claude-haiku-4-5'',
        [CallGenerateContent ''claude-haiku-4-5'' (kiro_messages_request ''claude-haiku-4-5''),
         CallGenerateContent ''claude-haiku-4-5'' kiro_contents_request])"
proof -
  have name: "check_model_name ''claude-kiro-oauth'' checked_entry = Val ''claude-haiku-4-5''"
    by code_simp
  have outcome: "traditional_check fallback_adapter ''claude-kiro-oauth'' checked_entry =
       (probe_success ''claude-haiku-4-5'',
        [CallGenerateContent ''claude-haiku-4-5'' (kiro_messages_request ''claude-haiku-4-5''),
         CallGenerateContent ''claude-haiku-4-5'' kiro_contents_request])"
    by code_simp
  show ?thesis
    by (intro conjI name outcome kiro_chat_probe [OF name, where a = fallback_adapter])
qed

text \<open>
  The claim as stated fails when the last error has an empty message: both calls of the
  adapter throw an error whose message is the empty string, and the message of the
  failure is \<^verbatim>\<open>All health check attempts failed\<close>, not that of the last error.
\<close>

theorem empty_last_error_counterexample:
  "generateContent mute_adapter ''claude-haiku-4-5'' kiro_contents_request = Some (Val [])
   \<and> success (fst (traditional_check mute_adapter ''claude-kiro-oauth'' checked_entry)) = False
   \<and> errorMessage (fst (traditional_check mute_adapter ''claude-kiro-oauth'' checked_entry))
       = Val ''All health check attempts failed''
   \<and> errorMessage (fst (traditional_check mute_adapter ''claude-kiro-oauth'' checked_entry))
       \<noteq> Val []"
  by code_simp

text \<open>
  C8. For a \<^verbatim>\<open>claude-kiro-oauth\<close> entry whose adapter's \<^verbatim>\<open>getUsageLimits\<close> throws, the
  usage-based check returns nothing (the source's \<^verbatim>\<open>null\<close>) and leaves the state as it
  was; the health check, when it is enabled for the entry or forced, then gives the
  result of the chat-send probe for the same entry, made after the token refresh and
  the usage query.
\<close>

theorem usage_probe_throws_falls_back:
  assumes "getUsageLimits a = Some (Inl thrown)"
    and "truthy_bool (checkHealth providerConfig) \<or> forceCheck"
  shows "result (checkProviderHealthByUsage fmt m ''claude-kiro-oauth'' a providerConfig now) = None
       \<and> manager_probed (checkProviderHealthByUsage fmt m ''claude-kiro-oauth'' a providerConfig now) = m
       \<and> checkProviderHealth fmt (Inr a) m ''claude-kiro-oauth'' providerConfig forceCheck now =
           Inr \<lparr> result = Some (fst (traditional_check a ''claude-kiro-oauth'' providerConfig)),
                 calls = refresh_calls a @ [CallGetUsageLimits]
                           @ snd (traditional_check a ''claude-kiro-oauth'' providerConfig),
                 manager_probed = m \<rparr>"
  using assms
  by (auto simp: checkProviderHealthByUsage_def checkProviderHealth_def
      USAGE_BASED_HEALTH_CHECK_PROVIDERS_def KIRO_API_def split: prod.splits)

theorem usage_probe_throws_falls_back_witness:
  "getUsageLimits quota_down_adapter = Some (Inl (Val ''socket hang up''))
   \<and> (truthy_bool (checkHealth checked_entry) \<or> False)
   \<and> (result (checkProviderHealthByUsage no_usage_format example_manager ''claude-kiro-oauth''
                quota_down_adapter checked_entry 1) = None
      \<and> manager_probed (checkProviderHealthByUsage no_usage_format example_manager
                          ''claude-kiro-oauth'' quota_down_adapter checked_entry 1) = example_manager
      \<and> checkProviderHealth no_usage_format (Inr quota_down_adapter) example_manager
          ''claude-kiro-oauth'' checked_entry False 1 =
          Inr \<lparr> result = Some (fst (traditional_check quota_down_adapter ''claude-kiro-oauth''
                                      checked_entry)),
                calls = refresh_calls quota_down_adapter @ [CallGetUsageLimits]
                          @ snd (traditional_check quota_down_adapter ''claude-kiro-oauth''
                                   checked_entry),
                manager_probed = example_manager \<rparr>)
   \<and> checkProviderHealth no_usage_format (Inr quota_down_adapter) example_manager
       ''claude-kiro-oauth'' checked_entry False 1 =
       Inr \<lparr> result = Some (probe_success ''claude-haiku-4-5''),
             calls = [CallForceRefreshToken, CallGetUsageLimits,
                      CallGenerateContent ''claude-haiku-4-5''
                        (kiro_messages_request ''claude-haiku-4-5'')],
             manager_probed = example_manager \<rparr>"
proof -
  have throws: "getUsageLimits quota_down_adapter = Some (Inl (Val ''socket hang up''))"
    by code_simp
  have enabled: "truthy_bool (checkHealth checked_entry) \<or> False"
    by code_simp
  have outcome: "checkProviderHealth no_usage_format (Inr quota_down_adapter) example_manager
       ''claude-kiro-oauth'' checked_entry False 1 =
       Inr \<lparr> result = Some (probe_success ''claude-haiku-4-5''),
             calls = [CallForceRefreshToken, CallGetUsageLimits,
                      CallGenerateContent ''claude-haiku-4-5''
                        (kiro_messages_request ''claude-haiku-4-5'')],
             manager_probed = example_manager \<rparr>"
    by code_simp
  show ?thesis
    by (intro conjI throws enabled outcome usage_probe_throws_falls_back [OF throws enabled])
qed

end
